theory Spec2Isabelle
  imports Main
begin

section \<open>Configuration constants of the prober\<close>

text \<open>
  The three prober revisions under \<^verbatim>\<open>src/\<close> share \<^verbatim>\<open>TIMEOUT\<close> and
  \<^verbatim>\<open>RETRY_DELAY\<close>. \<^verbatim>\<open>keepUpCheck_worker.js\<close> and the first prober of
  \<^verbatim>\<open>part_000\<close> bound the retry loop by \<^verbatim>\<open>MAX_RETRIES\<close>, the second prober of
  \<^verbatim>\<open>part_000\<close> by \<^verbatim>\<open>MAX_ATTEMPT\<close>.
\<close>

definition TIMEOUT :: nat where "TIMEOUT = 5000"
definition MAX_RETRIES :: nat where "MAX_RETRIES = 3"
definition MAX_ATTEMPT :: nat where "MAX_ATTEMPT = 3"
definition RETRY_DELAY :: nat where "RETRY_DELAY = 500"
definition CONCURRENCY :: nat where "CONCURRENCY = 3"

section \<open>Requests, events and the world the workers act on\<close>

datatype json_value = JString string | JBool bool | JObject "(string \<times> json_value) list"

record http_request =
  req_method :: string
  req_url :: string
  req_headers :: "(string \<times> string) list"
  req_body :: json_value

text \<open>
  What one \<^verbatim>\<open>await fetch(...)\<close> (with the reading of its body) gives back:
  a response with a status, the \<^verbatim>\<open>AbortError\<close> of the timeout, or any other
  exception (a network error).
\<close>

datatype fetch_result = Responded nat | Aborted | Failed

text \<open>
  The observable actions, in program order. \<open>Fetch url k\<close> is the probe request of
  attempt \<open>k\<close>; \<open>Sleep ms\<close> the back-off delay; \<open>FinalFailure url\<close> the call
  \<^verbatim>\<open>handleFinalFailure(url, env)\<close>; \<open>Trigger r\<close> the request to the deploy
  interface; \<open>KvGet\<close> and \<open>KvPut\<close> the calls on the KV namespace; \<open>ContentGet\<close>
  (URL, branch) and \<open>ContentPut\<close> (URL, branch, sha, base64 content) the requests
  to the content API.
\<close>

datatype event =
    Fetch string nat
  | Sleep nat
  | FinalFailure string
  | Trigger http_request
  | KvGet string
  | KvPut string string nat
  | ContentGet string "string option"
  | ContentPut string "string option" string "nat list"

text \<open>
  The KV namespace: a key holds a value and the instant (in seconds) at which it
  expires. \<^verbatim>\<open>get\<close> gives \<^verbatim>\<open>null\<close> (\<open>None\<close>) for an absent or expired key;
  \<^verbatim>\<open>put(k, v, {expirationTtl})\<close> stores the value with expiry \<open>now + ttl\<close>.
\<close>

type_synonym kv_store = "string \<rightharpoonup> string \<times> nat"

record world =
  KV :: kv_store
  now :: nat
  trace :: "event list"

definition emit :: "event \<Rightarrow> world \<Rightarrow> world" where
  "emit e w = w\<lparr>trace := trace w @ [e]\<rparr>"

definition kv_get :: "kv_store \<Rightarrow> nat \<Rightarrow> string \<Rightarrow> string option" where
  "kv_get store t k =
     (case store k of
        None \<Rightarrow> None
      | Some (v, expires) \<Rightarrow> if t < expires then Some v else None)"

definition kv_put :: "string \<Rightarrow> string \<Rightarrow> nat \<Rightarrow> world \<Rightarrow> world" where
  "kv_put k v ttl w = (emit (KvPut k v ttl) w)\<lparr>KV := (KV w)(k \<mapsto> (v, now w + ttl))\<rparr>"

record env =
  DEPLOY_API_URL :: string
  FIXED_TOKEN :: string

text \<open>
  The network as the prober sees it: the outcome of the probe of \<open>url\<close> at attempt
  \<open>k\<close>, and the outcome of the request to the deploy interface.
\<close>

record net =
  probe :: "string \<Rightarrow> nat \<Rightarrow> fetch_result"
  deploy :: fetch_result

definition ok :: "nat \<Rightarrow> bool" where
  "ok status = (200 \<le> status \<and> status \<le> 299)"

text \<open>\<^verbatim>\<open>s.includes(t)\<close>: \<open>t\<close> occurs in \<open>s\<close> as a contiguous run.\<close>

fun js_includes :: "'a list \<Rightarrow> 'a list \<Rightarrow> bool" where
  "js_includes [] t = (t = [])"
| "js_includes (c # cs) t = (take (length t) (c # cs) = t \<or> js_includes cs t)"

section \<open>The final-failure handlers\<close>

text \<open>The request all three handlers build for the deploy interface.\<close>

definition trigger_request :: "env \<Rightarrow> string \<Rightarrow> http_request" where
  "trigger_request e url =
     \<lparr>req_method = ''POST'',
      req_url = DEPLOY_API_URL e,
      req_headers = [(''Content-Type'', ''application/json''),
                     (''X-Deploy-Token'', FIXED_TOKEN e)],
      req_body = JObject [(''reason'', JString ''galaxy_final_retry_failed''),
                          (''url'', JString url)]\<rparr>"

text \<open>
  \<^verbatim>\<open>keepUpCheck_worker.js\<close>, \<^verbatim>\<open>handleFinalFailure\<close>: the response of the deploy
  interface is only logged, and every exception is caught and logged.
\<close>

definition handleFinalFailure :: "env \<Rightarrow> net \<Rightarrow> string \<Rightarrow> world \<Rightarrow> world" where
  "handleFinalFailure e n url w =
     (if url = [] \<or> \<not> js_includes url ''galaxy'' then w
      else emit (Trigger (trigger_request e url)) w)"

text \<open>
  \<^verbatim>\<open>part_000\<close>, first prober, \<^verbatim>\<open>handleFinalFailure\<close>: the KV flag is read before
  the request and written after a 2xx response.
\<close>

definition handleFinalFailure_kv :: "env \<Rightarrow> net \<Rightarrow> string \<Rightarrow> world \<Rightarrow> world" where
  "handleFinalFailure_kv e n url w =
     (if url = [] \<or> \<not> js_includes url ''galaxy'' then w
      else
        let w1 = emit (KvGet ''flag'') w in
        if kv_get (KV w1) (now w1) ''flag'' = Some ''deployed'' then w1
        else
          let w2 = emit (Trigger (trigger_request e url)) w1 in
          (case deploy n of
             Responded status \<Rightarrow>
               if \<not> ok status then w2
               else kv_put ''flag'' ''deployed'' (60 * 60 * 3) w2
           | Aborted \<Rightarrow> w2
           | Failed \<Rightarrow> w2))"

text \<open>\<^verbatim>\<open>part_000\<close>, second prober, \<^verbatim>\<open>handleFinalFailure\<close>.\<close>

definition handleFinalFailure_attempt :: "env \<Rightarrow> net \<Rightarrow> string \<Rightarrow> world \<Rightarrow> world" where
  "handleFinalFailure_attempt e n url w =
     (if \<not> js_includes url ''galaxy'' then w
      else emit (Trigger (trigger_request e url)) w)"

section \<open>The retrying probe\<close>

datatype js_exn = AbortError | NetworkError | ServerError nat

datatype completion = Completed | Threw js_exn

text \<open>
  The \<^verbatim>\<open>try\<close> block of \<^verbatim>\<open>fetchWithTimeout\<close> in \<^verbatim>\<open>keepUpCheck_worker.js\<close> and in
  the first prober of \<^verbatim>\<open>part_000\<close>: it completes (success, or the early
  \<^verbatim>\<open>return\<close> after the final-failure handler) or throws into the \<^verbatim>\<open>catch\<close>.
  The handler is a parameter: the two files differ only in it.
\<close>

definition try_fetch ::
  "(string \<Rightarrow> world \<Rightarrow> world) \<Rightarrow> net \<Rightarrow> string \<Rightarrow> nat \<Rightarrow> world \<Rightarrow> completion \<times> world" where
  "try_fetch hff n url retries w =
     (let w1 = emit (Fetch url retries) w in
      case probe n url retries of
        Aborted \<Rightarrow> (Threw AbortError, w1)
      | Failed \<Rightarrow> (Threw NetworkError, w1)
      | Responded status \<Rightarrow>
          if \<not> ok status then
            if 500 \<le> status \<and> status < 600 then (Threw (ServerError status), w1)
            else (Completed, hff url (emit (FinalFailure url) w1))
          else (Completed, w1))"

function fetchWithTimeout ::
  "(string \<Rightarrow> world \<Rightarrow> world) \<Rightarrow> net \<Rightarrow> string \<Rightarrow> nat \<Rightarrow> world \<Rightarrow> world" where
  "fetchWithTimeout hff n url retries w =
     (case try_fetch hff n url retries w of
        (Completed, w') \<Rightarrow> w'
      | (Threw err, w') \<Rightarrow>
          if retries \<le> MAX_RETRIES
          then fetchWithTimeout hff n url (retries + 1)
                 (emit (Sleep (RETRY_DELAY * 2 ^ retries)) w')
          else hff url (emit (FinalFailure url) w'))"
  by pat_completeness auto
termination
  by (relation "measure (\<lambda>(hff, n, url, retries, w). MAX_RETRIES + 1 - retries)") auto

declare fetchWithTimeout.simps [simp del]

text \<open>
  The second prober of \<^verbatim>\<open>part_000\<close>: every status from 500 up throws, and the
  loop is bounded by \<^verbatim>\<open>attempt < MAX_ATTEMPT\<close>.
\<close>

definition try_fetch_attempt ::
  "(string \<Rightarrow> world \<Rightarrow> world) \<Rightarrow> net \<Rightarrow> string \<Rightarrow> nat \<Rightarrow> world \<Rightarrow> completion \<times> world" where
  "try_fetch_attempt hff n url attempt w =
     (let w1 = emit (Fetch url attempt) w in
      case probe n url attempt of
        Aborted \<Rightarrow> (Threw AbortError, w1)
      | Failed \<Rightarrow> (Threw NetworkError, w1)
      | Responded status \<Rightarrow>
          if \<not> ok status then
            if 500 \<le> status then (Threw (ServerError status), w1)
            else (Completed, hff url (emit (FinalFailure url) w1))
          else (Completed, w1))"

function fetchWithTimeout_attempt ::
  "(string \<Rightarrow> world \<Rightarrow> world) \<Rightarrow> net \<Rightarrow> string \<Rightarrow> nat \<Rightarrow> world \<Rightarrow> world" where
  "fetchWithTimeout_attempt hff n url attempt w =
     (case try_fetch_attempt hff n url attempt w of
        (Completed, w') \<Rightarrow> w'
      | (Threw err, w') \<Rightarrow>
          if attempt < MAX_ATTEMPT
          then fetchWithTimeout_attempt hff n url (attempt + 1)
                 (emit (Sleep (RETRY_DELAY * 2 ^ attempt)) w')
          else hff url (emit (FinalFailure url) w'))"
  by pat_completeness auto
termination
  by (relation "measure (\<lambda>(hff, n, url, attempt, w). MAX_ATTEMPT - attempt)") auto

declare fetchWithTimeout_attempt.simps [simp del]

text \<open>The number of probe requests in a trace.\<close>

fun attempts :: "event list \<Rightarrow> nat" where
  "attempts [] = 0"
| "attempts (Fetch url k # es) = Suc (attempts es)"
| "attempts (e # es) = attempts es"

text \<open>The requests sent to the deploy interface in a trace.\<close>

fun triggers :: "event list \<Rightarrow> http_request list" where
  "triggers [] = []"
| "triggers (Trigger r # es) = r # triggers es"
| "triggers (e # es) = triggers es"

section \<open>The UTF-8 and base64 helpers of the deploy worker\<close>

text \<open>
  A JavaScript string is the list of its UTF-16 code units, a byte array the list of
  its bytes, both as natural numbers. \<^verbatim>\<open>base64EncodeUtf8\<close> and
  \<^verbatim>\<open>base64DecodeUtf8\<close> (\<^verbatim>\<open>part_000\<close>) compose platform functions; those are
  written out here after their standards: the UTF-8 encoder and decoder of the
  Encoding standard behind \<^verbatim>\<open>TextEncoder\<close> and \<^verbatim>\<open>TextDecoder\<close>, and base64
  encoding and forgiving decoding behind \<^verbatim>\<open>btoa\<close> and \<^verbatim>\<open>atob\<close>.
\<close>

type_synonym js_string = "nat list"
type_synonym bytes = "nat list"

definition is_high_surrogate :: "nat \<Rightarrow> bool" where
  "is_high_surrogate c = (0xD800 \<le> c \<and> c \<le> 0xDBFF)"

definition is_low_surrogate :: "nat \<Rightarrow> bool" where
  "is_low_surrogate c = (0xDC00 \<le> c \<and> c \<le> 0xDFFF)"

definition is_surrogate :: "nat \<Rightarrow> bool" where
  "is_surrogate c = (0xD800 \<le> c \<and> c \<le> 0xDFFF)"

text \<open>
  A well-formed string: every element is a 16-bit code unit, every high surrogate
  is followed by a low surrogate, and no low surrogate stands alone.
\<close>

fun well_formed :: "js_string \<Rightarrow> bool" where
  "well_formed [] = True"
| "well_formed [c] = (c < 0x10000 \<and> \<not> is_surrogate c)"
| "well_formed (c # d # cs) =
     (if is_high_surrogate c then is_low_surrogate d \<and> well_formed cs
      else c < 0x10000 \<and> \<not> is_surrogate c \<and> well_formed (d # cs))"

text \<open>
  \<^verbatim>\<open>new TextEncoder().encode(str)\<close>: the string is read as scalar values (a
  surrogate pair is one code point, a lone surrogate becomes U+FFFD), each encoded
  in UTF-8.
\<close>

fun scalar_values :: "js_string \<Rightarrow> nat list" where
  "scalar_values [] = []"
| "scalar_values [c] = [if is_surrogate c then 0xFFFD else c]"
| "scalar_values (c # d # cs) =
     (if is_high_surrogate c \<and> is_low_surrogate d
      then (0x10000 + (c - 0xD800) * 0x400 + (d - 0xDC00)) # scalar_values cs
      else (if is_surrogate c then 0xFFFD else c) # scalar_values (d # cs))"

text \<open>A Unicode scalar value: a code point that is not a surrogate.\<close>

definition scalar_value :: "nat \<Rightarrow> bool" where
  "scalar_value cp = (cp < 0x110000 \<and> \<not> is_surrogate cp)"

definition utf8_bytes :: "nat \<Rightarrow> bytes" where
  "utf8_bytes cp =
     (if cp < 0x80 then [cp]
      else if cp < 0x800 then [0xC0 + cp div 64, 0x80 + cp mod 64]
      else if cp < 0x10000 then
        [0xE0 + cp div 4096, 0x80 + (cp div 64) mod 64, 0x80 + cp mod 64]
      else
        [0xF0 + cp div 262144, 0x80 + (cp div 4096) mod 64,
         0x80 + (cp div 64) mod 64, 0x80 + cp mod 64])"

definition TextEncoder_encode :: "js_string \<Rightarrow> bytes" where
  "TextEncoder_encode str = concat (map utf8_bytes (scalar_values str))"

definition String_fromCharCode :: "nat \<Rightarrow> nat" where
  "String_fromCharCode b = b mod 65536"

text \<open>
  \<^verbatim>\<open>btoa\<close>: it throws (\<open>None\<close>) on a code unit above \<open>0xFF\<close>; otherwise three bytes
  give four characters of the base64 alphabet, and a last group of one or two bytes
  is padded with \<^verbatim>\<open>=\<close> (code 61).
\<close>

definition b64_char :: "nat \<Rightarrow> nat" where
  "b64_char i =
     (if i < 26 then 65 + i
      else if i < 52 then 71 + i
      else if i < 62 then i - 4
      else if i = 62 then 43
      else 47)"

fun btoa_groups :: "bytes \<Rightarrow> js_string" where
  "btoa_groups (a # b # c # rest) =
     [b64_char (a div 4), b64_char ((a mod 4) * 16 + b div 16),
      b64_char ((b mod 16) * 4 + c div 64), b64_char (c mod 64)] @ btoa_groups rest"
| "btoa_groups [a, b] =
     [b64_char (a div 4), b64_char ((a mod 4) * 16 + b div 16),
      b64_char ((b mod 16) * 4), 61]"
| "btoa_groups [a] = [b64_char (a div 4), b64_char ((a mod 4) * 16), 61, 61]"
| "btoa_groups [] = []"

definition btoa :: "js_string \<Rightarrow> js_string option" where
  "btoa s = (if list_all (\<lambda>c. c \<le> 255) s then Some (btoa_groups s) else None)"

definition base64EncodeUtf8 :: "js_string \<Rightarrow> js_string option" where
  "base64EncodeUtf8 str = btoa (map String_fromCharCode (TextEncoder_encode str))"

text \<open>
  \<^verbatim>\<open>atob\<close>, the forgiving base64 decoding: ASCII whitespace is removed; when the
  length is a multiple of four, one or two \<^verbatim>\<open>=\<close> at the end are removed; a
  length of one modulo four, or a character outside the alphabet, throws
  (\<open>None\<close>); the characters are then read six bits at a time, and the two or four
  bits left over at the end are dropped.
\<close>

definition ascii_whitespace :: "nat \<Rightarrow> bool" where
  "ascii_whitespace c = (c = 9 \<or> c = 10 \<or> c = 12 \<or> c = 13 \<or> c = 32)"

definition strip_padding :: "js_string \<Rightarrow> js_string" where
  "strip_padding d =
     (if length d mod 4 = 0 \<and> d \<noteq> [] \<and> last d = 61
      then (if butlast d \<noteq> [] \<and> last (butlast d) = 61 then butlast (butlast d)
            else butlast d)
      else d)"

definition b64_value :: "nat \<Rightarrow> nat option" where
  "b64_value c =
     (if 65 \<le> c \<and> c \<le> 90 then Some (c - 65)
      else if 97 \<le> c \<and> c \<le> 122 then Some (c - 71)
      else if 48 \<le> c \<and> c \<le> 57 then Some (c + 4)
      else if c = 43 then Some 62
      else if c = 47 then Some 63
      else None)"

fun decode_groups :: "nat list \<Rightarrow> bytes" where
  "decode_groups (p # q # r # s # rest) =
     [p * 4 + q div 16, (q mod 16) * 16 + r div 4, (r mod 4) * 64 + s] @ decode_groups rest"
| "decode_groups [p, q, r] = [p * 4 + q div 16, (q mod 16) * 16 + r div 4]"
| "decode_groups [p, q] = [p * 4 + q div 16]"
| "decode_groups [p] = []"
| "decode_groups [] = []"

definition atob :: "js_string \<Rightarrow> js_string option" where
  "atob data =
     (let d = strip_padding (filter (\<lambda>c. \<not> ascii_whitespace c) data) in
      if length d mod 4 = 1 then None
      else (case those (map b64_value d) of
              None \<Rightarrow> None
            | Some sextets \<Rightarrow> Some (decode_groups sextets)))"

text \<open>
  \<^verbatim>\<open>new TextDecoder().decode(bytes)\<close>: a leading byte order mark
  \<^verbatim>\<open>EF BB BF\<close> is dropped (\<^verbatim>\<open>ignoreBOM\<close> is false by default); the UTF-8
  decoder then runs over the bytes with its state (the code point so far, the
  number of continuation bytes still needed, the bounds for the next byte), giving
  U+FFFD for every malformed sequence and reading again the byte that broke a
  sequence; each code point becomes one or two UTF-16 code units.
\<close>

function utf8_decode :: "nat \<Rightarrow> nat \<Rightarrow> nat \<Rightarrow> nat \<Rightarrow> bytes \<Rightarrow> nat list" where
  "utf8_decode cp needed lower upper [] = (if needed \<noteq> 0 then [0xFFFD] else [])"
| "utf8_decode cp needed lower upper (b # bs) =
     (if needed = 0 then
        (if b \<le> 0x7F then b # utf8_decode 0 0 0x80 0xBF bs
         else if 0xC2 \<le> b \<and> b \<le> 0xDF then utf8_decode (b mod 32) 1 0x80 0xBF bs
         else if 0xE0 \<le> b \<and> b \<le> 0xEF then
           utf8_decode (b mod 16) 2 (if b = 0xE0 then 0xA0 else 0x80)
             (if b = 0xED then 0x9F else 0xBF) bs
         else if 0xF0 \<le> b \<and> b \<le> 0xF4 then
           utf8_decode (b mod 8) 3 (if b = 0xF0 then 0x90 else 0x80)
             (if b = 0xF4 then 0x8F else 0xBF) bs
         else 0xFFFD # utf8_decode 0 0 0x80 0xBF bs)
      else if b < lower \<or> upper < b then 0xFFFD # utf8_decode 0 0 0x80 0xBF (b # bs)
      else if needed = 1 then (cp * 64 + b mod 64) # utf8_decode 0 0 0x80 0xBF bs
      else utf8_decode (cp * 64 + b mod 64) (needed - 1) 0x80 0xBF bs)"
  by pat_completeness auto
termination
  by (relation "measure (\<lambda>(cp, needed, lower, upper, bs).
        2 * length bs + (if needed = 0 then 0 else 1))") auto

declare utf8_decode.simps [simp del]

definition strip_bom :: "bytes \<Rightarrow> bytes" where
  "strip_bom bs = (if take 3 bs = [0xEF, 0xBB, 0xBF] then drop 3 bs else bs)"

definition utf16_units :: "nat \<Rightarrow> js_string" where
  "utf16_units cp =
     (if cp < 0x10000 then [cp]
      else [0xD800 + (cp - 0x10000) div 0x400, 0xDC00 + (cp - 0x10000) mod 0x400])"

definition TextDecoder_decode :: "bytes \<Rightarrow> js_string" where
  "TextDecoder_decode bs =
     concat (map utf16_units (utf8_decode 0 0 0x80 0xBF (strip_bom bs)))"

text \<open>
  \<^verbatim>\<open>base64DecodeUtf8\<close>: line feeds (code 10) are removed before \<^verbatim>\<open>atob\<close>, and
  \<^verbatim>\<open>Uint8Array.from\<close> stores each character code modulo 256.
\<close>

definition base64DecodeUtf8 :: "js_string \<Rightarrow> js_string option" where
  "base64DecodeUtf8 base64 =
     (case atob (filter (\<lambda>c. c \<noteq> 10) base64) of
        None \<Rightarrow> None
      | Some binary \<Rightarrow> Some (TextDecoder_decode (map (\<lambda>c. c mod 256) binary)))"

section \<open>The deploy worker\<close>

definition FLAG_KEY :: string where "FLAG_KEY = ''flag''"
definition FLAG_TTL :: nat where "FLAG_TTL = 3 * 60 * 60"

record request =
  pathname :: string
  http_method :: string
  token_header :: "string option"

record service_env =
  DEPLOY_TOKEN :: "string option"
  GITHUB_TOKEN :: "string option"
  GH_BRANCH :: "string option"
  GH_CONTENT_API_URL :: "string option"

record content_file =
  file_content :: js_string
  file_sha :: string

text \<open>
  The content API as the worker sees it: the outcome of the \<^verbatim>\<open>GET\<close> and the file
  its JSON body holds, the outcome of the \<^verbatim>\<open>PUT\<close>, and the message of an
  exception the platform throws. \<^verbatim>\<open>updateTimestampSection\<close> reads the clock
  (\<^verbatim>\<open>new Date()\<close>); it is taken as the rewrite it performs at the instant of the
  call.
\<close>

record content_api =
  get_result :: fetch_result
  get_file :: content_file
  put_result :: fetch_result
  thrown_message :: string
  updateTimestampSection :: "js_string \<Rightarrow> js_string"

datatype js_error = Error string

datatype run_result = Skipped string | Deployed

datatype body = Json json_value | Text string

record response =
  res_status :: nat
  res_headers :: "(string \<times> string) list"
  res_body :: body

text \<open>A variable of the environment is falsy when it is undefined or empty.\<close>

definition falsy :: "string option \<Rightarrow> bool" where
  "falsy v = (v = None \<or> v = Some [])"

text \<open>The decimal numeral of a status, as a template literal renders it.\<close>

fun decimal :: "nat \<Rightarrow> string" where
  "decimal n =
     (if n < 10 then [char_of (48 + n)]
      else decimal (n div 10) @ [char_of (48 + n mod 10)])"

declare decimal.simps [simp del]

text \<open>The three messages of the worker's own errors, as UTF-8 bytes.\<close>

definition config_missing :: string where
  "config_missing =
     [CHR 0xE5, CHR 0xBF, CHR 0x85, CHR 0xE8, CHR 0xA6, CHR 0x81, CHR 0xE7, CHR 0x9A,
      CHR 0x84, CHR 0xE7, CHR 0x8E, CHR 0xAF, CHR 0xE5, CHR 0xA2, CHR 0x83, CHR 0xE5,
      CHR 0x8F, CHR 0x98, CHR 0xE9, CHR 0x87, CHR 0x8F, CHR 0xE6, CHR 0x9C, CHR 0xAA,
      CHR 0xE9, CHR 0x85, CHR 0x8D, CHR 0xE7, CHR 0xBD, CHR 0xAE]"

definition read_failed :: "nat \<Rightarrow> string" where
  "read_failed st =
     [CHR 0xE8, CHR 0xAF, CHR 0xBB, CHR 0xE5, CHR 0x8F, CHR 0x96, CHR 0xE6, CHR 0x96,
      CHR 0x87, CHR 0xE4, CHR 0xBB, CHR 0xB6, CHR 0xE5, CHR 0xA4, CHR 0xB1, CHR 0xE8,
      CHR 0xB4, CHR 0xA5, CHR 0x3A, CHR 0x20] @ decimal st"

definition commit_failed :: "nat \<Rightarrow> string" where
  "commit_failed st =
     [CHR 0xE6, CHR 0x8F, CHR 0x90, CHR 0xE4, CHR 0xBA, CHR 0xA4, CHR 0xE5, CHR 0xA4,
      CHR 0xB1, CHR 0xE8, CHR 0xB4, CHR 0xA5, CHR 0x3A, CHR 0x20] @ decimal st"

definition getFile ::
  "string \<Rightarrow> string \<Rightarrow> string option \<Rightarrow> content_api \<Rightarrow> world \<Rightarrow> (js_error + content_file) \<times> world" where
  "getFile token apiUrl branch api w =
     (let w1 = emit (ContentGet apiUrl branch) w in
      case get_result api of
        Responded st \<Rightarrow>
          if \<not> ok st then (Inl (Error (read_failed st)), w1)
          else (Inr (get_file api), w1)
      | Aborted \<Rightarrow> (Inl (Error (thrown_message api)), w1)
      | Failed \<Rightarrow> (Inl (Error (thrown_message api)), w1))"

definition updateFile ::
  "string \<Rightarrow> string \<Rightarrow> string option \<Rightarrow> string \<Rightarrow> js_string \<Rightarrow> content_api \<Rightarrow> world
   \<Rightarrow> (js_error + unit) \<times> world" where
  "updateFile token apiUrl branch sha_of_file new_content api w =
     (case base64EncodeUtf8 new_content of
        None \<Rightarrow> (Inl (Error (thrown_message api)), w)
      | Some encoded \<Rightarrow>
          let w1 = emit (ContentPut apiUrl branch sha_of_file encoded) w in
          (case put_result api of
             Responded st \<Rightarrow>
               if \<not> ok st then (Inl (Error (commit_failed st)), w1)
               else (Inr (), w1)
           | Aborted \<Rightarrow> (Inl (Error (thrown_message api)), w1)
           | Failed \<Rightarrow> (Inl (Error (thrown_message api)), w1)))"

definition run :: "service_env \<Rightarrow> content_api \<Rightarrow> world \<Rightarrow> (js_error + run_result) \<times> world" where
  "run e api w =
     (case (GITHUB_TOKEN e, GH_CONTENT_API_URL e) of
        (Some token, Some apiUrl) \<Rightarrow>
          if token = [] \<or> apiUrl = [] then (Inl (Error config_missing), w)
          else
            let w1 = emit (KvGet FLAG_KEY) w in
            if kv_get (KV w1) (now w1) FLAG_KEY = Some ''deployed''
            then (Inr (Skipped ''already deployed (within 3 hours)''), w1)
            else
              (case getFile token apiUrl (GH_BRANCH e) api w1 of
                 (Inl err, w2) \<Rightarrow> (Inl err, w2)
               | (Inr f, w2) \<Rightarrow>
                   (case base64DecodeUtf8 (file_content f) of
                      None \<Rightarrow> (Inl (Error (thrown_message api)), w2)
                    | Some rawContent \<Rightarrow>
                        let newContent = updateTimestampSection api rawContent in
                        if newContent = rawContent
                        then (Inr (Skipped ''content unchanged''), w2)
                        else
                          (case updateFile token apiUrl (GH_BRANCH e) (file_sha f) newContent api w2 of
                             (Inl err, w3) \<Rightarrow> (Inl err, w3)
                           | (Inr u, w3) \<Rightarrow>
                               (Inr Deployed, kv_put FLAG_KEY ''deployed'' FLAG_TTL w3))))
      | (Some token, None) \<Rightarrow> (Inl (Error config_missing), w)
      | (None, apiUrl) \<Rightarrow> (Inl (Error config_missing), w))"

definition json :: "json_value \<Rightarrow> nat \<Rightarrow> response" where
  "json obj st =
     \<lparr>res_status = st, res_headers = [(''Content-Type'', ''application/json'')],
      res_body = Json obj\<rparr>"

fun result_json :: "run_result \<Rightarrow> json_value" where
  "result_json (Skipped reason) = JObject [(''skipped'', JBool True), (''reason'', JString reason)]"
| "result_json Deployed = JObject [(''deployed'', JBool True)]"

text \<open>The \<^verbatim>\<open>fetch\<close> handler of the deploy worker.\<close>

definition fetch :: "request \<Rightarrow> service_env \<Rightarrow> content_api \<Rightarrow> world \<Rightarrow> response \<times> world" where
  "fetch req e api w =
     (if pathname req = ''/deploy'' \<and> http_method req = ''POST'' then
        (if falsy (token_header req) \<or> token_header req \<noteq> DEPLOY_TOKEN e
         then (json (JObject [(''ok'', JBool False), (''error'', JString ''Unauthorized'')]) 401, w)
         else
           (case run e api w of
              (Inr result, w') \<Rightarrow>
                (json (JObject [(''ok'', JBool True), (''result'', result_json result)]) 200, w')
            | (Inl (Error msg), w') \<Rightarrow>
                (json (JObject [(''ok'', JBool False), (''error'', JString msg)]) 500, w')))
      else (\<lparr>res_status = 404, res_headers = [], res_body = Text ''Not Found''\<rparr>, w))"

section \<open>The concurrency-bounded runner\<close>

text \<open>
  \<^verbatim>\<open>runWithConcurrency(tasks, limit)\<close> (\<^verbatim>\<open>keepUpCheck_worker.js\<close> and the second
  prober of \<^verbatim>\<open>part_000\<close>) runs on the event loop; the tasks settle when the
  network lets them. The model is a transition system whose schedule, the list of
  actions, is chosen by the environment. The promises are numbered by the position
  of their task. The state holds the tasks the \<^verbatim>\<open>for\<close> loop has not reached, the
  set \<^verbatim>\<open>executing\<close> in insertion order, the promises in flight (created and not
  settled), the settled ones, and where the runner stands:
  \<^item> \<open>Looping\<close>: at the head of the \<^verbatim>\<open>for\<close> loop;
  \<^item> \<open>AwaitingRace woken\<close>: at \<^verbatim>\<open>await Promise.race(executing)\<close>, with \<open>woken\<close>
    once a promise of the race has settled and its \<^verbatim>\<open>finally\<close> callback has run;
  \<^item> \<open>AwaitingAll snapshot\<close>: at \<^verbatim>\<open>await Promise.allSettled(executing)\<close>, called
    on the promises \<open>snapshot\<close>;
  \<^item> \<open>Returned\<close>.
  The probe tasks never reject (\<^verbatim>\<open>fetchWithTimeout\<close> catches every exception), so
  a settled promise is a fulfilled one.
\<close>

datatype phase = Looping | AwaitingRace bool | AwaitingAll "nat list" | Returned

record runner =
  pending :: "nat list"
  executing :: "nat list"
  in_flight :: "nat list"
  settled :: "nat list"
  phase :: phase

text \<open>
  The actions: \<open>Run\<close>, the runner goes on to its next \<^verbatim>\<open>await\<close> (one iteration
  of the loop, the resumption after the race, the call of \<^verbatim>\<open>allSettled\<close>, the
  return); \<open>Settle p\<close>, the promise \<open>p\<close> settles; \<open>Finally p\<close>, the callback
  \<^verbatim>\<open>() => executing.delete(p)\<close> of the settled promise \<open>p\<close> runs. The callback
  was registered before the race, so it runs before the race wakes the runner.
\<close>

datatype action = Run | Settle nat | Finally nat

definition start :: "nat \<Rightarrow> runner" where
  "start n = \<lparr>pending = [0..<n], executing = [], in_flight = [], settled = [],
              phase = Looping\<rparr>"

definition run_step :: "nat \<Rightarrow> runner \<Rightarrow> runner option" where
  "run_step limit s =
     (case phase s of
        Looping \<Rightarrow>
          (case pending s of
             [] \<Rightarrow> Some (s\<lparr>phase := AwaitingAll (executing s)\<rparr>)
           | task # rest \<Rightarrow>
               Some (s\<lparr>pending := rest,
                       executing := executing s @ [task],
                       in_flight := in_flight s @ [task],
                       phase := (if length (executing s @ [task]) \<ge> limit
                                 then AwaitingRace False else Looping)\<rparr>))
      | AwaitingRace woken \<Rightarrow> if woken then Some (s\<lparr>phase := Looping\<rparr>) else None
      | AwaitingAll snapshot \<Rightarrow>
          if list_all (\<lambda>p. p \<notin> set (in_flight s)) snapshot
          then Some (s\<lparr>phase := Returned\<rparr>) else None
      | Returned \<Rightarrow> None)"

definition settle_step :: "nat \<Rightarrow> runner \<Rightarrow> runner option" where
  "settle_step p s =
     (if p \<in> set (in_flight s)
      then Some (s\<lparr>in_flight := removeAll p (in_flight s), settled := settled s @ [p]\<rparr>)
      else None)"

definition finally_step :: "nat \<Rightarrow> runner \<Rightarrow> runner option" where
  "finally_step p s =
     (if p \<in> set (executing s) \<and> p \<notin> set (in_flight s)
      then Some (s\<lparr>executing := removeAll p (executing s),
                   phase := (case phase s of
                               AwaitingRace woken \<Rightarrow> AwaitingRace True
                             | Looping \<Rightarrow> Looping
                             | AwaitingAll snapshot \<Rightarrow> AwaitingAll snapshot
                             | Returned \<Rightarrow> Returned)\<rparr>)
      else None)"

fun step :: "nat \<Rightarrow> action \<Rightarrow> runner \<Rightarrow> runner option" where
  "step limit Run s = run_step limit s"
| "step limit (Settle p) s = settle_step p s"
| "step limit (Finally p) s = finally_step p s"

text \<open>A schedule is run from a state; an action that is not enabled ends it in \<open>None\<close>.\<close>

fun steps :: "nat \<Rightarrow> action list \<Rightarrow> runner \<Rightarrow> runner option" where
  "steps limit [] s = Some s"
| "steps limit (a # as) s =
     (case step limit a s of None \<Rightarrow> None | Some s' \<Rightarrow> steps limit as s')"

definition runWithConcurrency :: "nat \<Rightarrow> nat \<Rightarrow> action list \<Rightarrow> runner option" where
  "runWithConcurrency n limit schedule = steps limit schedule (start n)"

text \<open>What every reachable state of the runner satisfies, for \<open>n\<close> tasks.\<close>

definition runner_inv :: "nat \<Rightarrow> nat \<Rightarrow> runner \<Rightarrow> bool" where
  "runner_inv n limit s =
     (set (in_flight s) \<subseteq> set (executing s)
      \<and> distinct (pending s @ executing s)
      \<and> distinct (in_flight s)
      \<and> set (pending s) \<union> set (in_flight s) \<union> set (settled s) = {0..<n}
      \<and> length (executing s) \<le> limit
      \<and> (case phase s of
           Looping \<Rightarrow> length (executing s) < limit
         | AwaitingRace woken \<Rightarrow> woken = (length (executing s) < limit)
         | AwaitingAll snapshot \<Rightarrow> pending s = [] \<and> set (in_flight s) \<subseteq> set snapshot
         | Returned \<Rightarrow> pending s = [] \<and> in_flight s = []))"

text \<open>Fixtures: an environment, an empty world and endpoints with a fixed answer.\<close>

definition env0 :: env where
  "env0 = \<lparr>DEPLOY_API_URL = ''https://deploy.test/deploy'', FIXED_TOKEN = ''secret''\<rparr>"

definition world0 :: world where
  "world0 = \<lparr>KV = Map.empty, now = 0, trace = []\<rparr>"

definition always :: "nat \<Rightarrow> string \<Rightarrow> nat \<Rightarrow> fetch_result" where
  "always status url k = Responded status"

definition net_always :: "nat \<Rightarrow> net" where
  "net_always status = \<lparr>probe = always status, deploy = Responded 200\<rparr>"

definition net_deploy_refused :: "nat \<Rightarrow> net" where
  "net_deploy_refused status = \<lparr>probe = always status, deploy = Responded 502\<rparr>"

text \<open>
  The outcomes that throw into the \<^verbatim>\<open>catch\<close> of every prober: the timeout, a
  network error, a 5xx status.
\<close>

definition retryable :: "fetch_result \<Rightarrow> bool" where
  "retryable r =
     (case r of Responded status \<Rightarrow> 500 \<le> status \<and> status < 600 | Aborted \<Rightarrow> True | Failed \<Rightarrow> True)"

text \<open>The outcomes that throw in the second prober of \<^verbatim>\<open>part_000\<close>.\<close>

definition retryable_attempt :: "fetch_result \<Rightarrow> bool" where
  "retryable_attempt r =
     (case r of Responded status \<Rightarrow> 500 \<le> status | Aborted \<Rightarrow> True | Failed \<Rightarrow> True)"

text \<open>Fixtures of the deploy worker: a configuration, a content API, requests, a set flag.\<close>

definition senv0 :: service_env where
  "senv0 = \<lparr>DEPLOY_TOKEN = Some ''secret'', GITHUB_TOKEN = Some ''token'',
            GH_BRANCH = Some ''main'', GH_CONTENT_API_URL = Some ''https://content.test/readme''\<rparr>"

definition senv_unconfigured :: service_env where
  "senv_unconfigured = \<lparr>DEPLOY_TOKEN = Some ''secret'', GITHUB_TOKEN = None,
            GH_BRANCH = Some ''main'', GH_CONTENT_API_URL = Some ''https://content.test/readme''\<rparr>"

definition append_line_feed :: "js_string \<Rightarrow> js_string" where
  "append_line_feed s = s @ [10]"

definition api_replying :: "nat \<Rightarrow> nat \<Rightarrow> content_api" where
  "api_replying get_status put_status =
     \<lparr>get_result = Responded get_status,
      get_file = \<lparr>file_content = [97, 71, 107, 61], file_sha = ''0a1b''\<rparr>,
      put_result = Responded put_status,
      thrown_message = ''Network connection lost.'',
      updateTimestampSection = append_line_feed\<rparr>"

definition deploy_request :: "string \<Rightarrow> string \<Rightarrow> string option \<Rightarrow> request" where
  "deploy_request path m tok = \<lparr>pathname = path, http_method = m, token_header = tok\<rparr>"

definition world_deployed :: world where
  "world_deployed = \<lparr>KV = [''flag'' \<mapsto> (''deployed'', 10800)], now = 600, trace = []\<rparr>"

definition world_expired :: world where
  "world_expired = \<lparr>KV = [''flag'' \<mapsto> (''deployed'', 10800)], now = 10800, trace = []\<rparr>"

text \<open>A response with a 2xx status.\<close>

definition succeeded :: "fetch_result \<Rightarrow> bool" where
  "succeeded r = (case r of Responded st \<Rightarrow> ok st | Aborted \<Rightarrow> False | Failed \<Rightarrow> False)"

section \<open>Properties of the final-failure handlers\<close>

text \<open>
  C5. An endpoint whose URL does not contain the keyword \<^verbatim>\<open>galaxy\<close> leaves the
  final-failure handler with the world as it was: no request to the deploy
  interface, no read or write of the KV flag, in each of the three handlers.
\<close>

theorem handleFinalFailure_no_keyword:
  assumes "\<not> js_includes url ''galaxy''"
  shows "handleFinalFailure e n url w = w
       \<and> handleFinalFailure_kv e n url w = w
       \<and> handleFinalFailure_attempt e n url w = w"
  using assms
  by (simp add: handleFinalFailure_def handleFinalFailure_kv_def
      handleFinalFailure_attempt_def)

theorem handleFinalFailure_no_keyword_witness:
  "\<not> js_includes ''https://down.test/'' ''galaxy''
   \<and> handleFinalFailure env0 (net_always 503) ''https://down.test/'' world0 = world0
   \<and> handleFinalFailure_kv env0 (net_always 503) ''https://down.test/'' world0 = world0
   \<and> handleFinalFailure_attempt env0 (net_always 503) ''https://down.test/'' world0 = world0"
proof -
  have h: "\<not> js_includes ''https://down.test/'' ''galaxy''" by simp
  show ?thesis
    using h handleFinalFailure_no_keyword [OF h, of env0 "net_always 503" world0] by simp
qed

lemma trace_emit: "trace (emit ev w) = trace w @ [ev]"
  by (simp add: emit_def)

lemma KV_emit: "KV (emit ev w) = KV w"
  by (simp add: emit_def)

lemma now_emit: "now (emit ev w) = now w"
  by (simp add: emit_def)

lemma trace_kv_put: "trace (kv_put k v ttl w) = trace w @ [KvPut k v ttl]"
  by (simp add: kv_put_def emit_def)

text \<open>
  C6, as the code has it. Every request a handler sends to the deploy interface is a
  \<^verbatim>\<open>POST\<close> to \<^verbatim>\<open>DEPLOY_API_URL\<close> with the headers \<^verbatim>\<open>Content-Type: application/json\<close>
  and \<^verbatim>\<open>X-Deploy-Token: FIXED_TOKEN\<close>, and its JSON body has the two fields
  \<^verbatim>\<open>reason\<close>, with the value \<^verbatim>\<open>galaxy_final_retry_failed\<close>, and \<^verbatim>\<open>url\<close>, the URL
  of the failing endpoint.
\<close>

theorem trigger_request_wire_format:
  assumes "Trigger r \<in> set (trace (handleFinalFailure e n url w))
         \<or> Trigger r \<in> set (trace (handleFinalFailure_kv e n url w))
         \<or> Trigger r \<in> set (trace (handleFinalFailure_attempt e n url w))"
    and "Trigger r \<notin> set (trace w)"
  shows "req_method r = ''POST''
       \<and> req_url r = DEPLOY_API_URL e
       \<and> req_headers r = [(''Content-Type'', ''application/json''),
                          (''X-Deploy-Token'', FIXED_TOKEN e)]
       \<and> req_body r = JObject [(''reason'', JString ''galaxy_final_retry_failed''),
                               (''url'', JString url)]"
proof -
  have "r = trigger_request e url"
    using assms
    by (auto simp: handleFinalFailure_def handleFinalFailure_kv_def
        handleFinalFailure_attempt_def Let_def trace_emit trace_kv_put
        split: if_splits fetch_result.splits)
  then show ?thesis by (simp add: trigger_request_def)
qed

theorem trigger_request_wire_format_witness:
  "(Trigger (trigger_request env0 ''https://galaxy.test/'')
      \<in> set (trace (handleFinalFailure env0 (net_always 503) ''https://galaxy.test/'' world0))
    \<or> Trigger (trigger_request env0 ''https://galaxy.test/'')
      \<in> set (trace (handleFinalFailure_kv env0 (net_always 503) ''https://galaxy.test/'' world0))
    \<or> Trigger (trigger_request env0 ''https://galaxy.test/'')
      \<in> set (trace (handleFinalFailure_attempt env0 (net_always 503) ''https://galaxy.test/'' world0)))
   \<and> Trigger (trigger_request env0 ''https://galaxy.test/'') \<notin> set (trace world0)
   \<and> req_method (trigger_request env0 ''https://galaxy.test/'') = ''POST''
   \<and> req_url (trigger_request env0 ''https://galaxy.test/'') = ''https://deploy.test/deploy''
   \<and> req_headers (trigger_request env0 ''https://galaxy.test/'')
       = [(''Content-Type'', ''application/json''), (''X-Deploy-Token'', ''secret'')]
   \<and> req_body (trigger_request env0 ''https://galaxy.test/'')
       = JObject [(''reason'', JString ''galaxy_final_retry_failed''),
                  (''url'', JString ''https://galaxy.test/'')]"
proof -
  have g: "js_includes ''https://galaxy.test/'' ''galaxy''" by simp
  have a: "Trigger (trigger_request env0 ''https://galaxy.test/'')
      \<in> set (trace (handleFinalFailure env0 (net_always 503) ''https://galaxy.test/'' world0))
    \<or> Trigger (trigger_request env0 ''https://galaxy.test/'')
      \<in> set (trace (handleFinalFailure_kv env0 (net_always 503) ''https://galaxy.test/'' world0))
    \<or> Trigger (trigger_request env0 ''https://galaxy.test/'')
      \<in> set (trace (handleFinalFailure_attempt env0 (net_always 503) ''https://galaxy.test/'' world0))"
    using g by (simp add: handleFinalFailure_def trace_emit)
  have b: "Trigger (trigger_request env0 ''https://galaxy.test/'') \<notin> set (trace world0)"
    by (simp add: world0_def)
  show ?thesis
    using a b trigger_request_wire_format [OF a b] by (simp add: env0_def)
qed

text \<open>
  The claim C6 has the reason string as \<^verbatim>\<open>final_retry_failed\<close>. The one request
  sent for \<^verbatim>\<open>https://galaxy.test/\<close> does not have that body.
\<close>

theorem trigger_reason_counterexample:
  "triggers (trace (handleFinalFailure env0 (net_always 503) ''https://galaxy.test/'' world0))
     = [trigger_request env0 ''https://galaxy.test/'']
   \<and> req_body (trigger_request env0 ''https://galaxy.test/'')
     \<noteq> JObject [(''reason'', JString ''final_retry_failed''),
                 (''url'', JString ''https://galaxy.test/'')]"
proof -
  have g: "js_includes ''https://galaxy.test/'' ''galaxy''" by simp
  show ?thesis
    using g by (simp add: handleFinalFailure_def trace_emit world0_def trigger_request_def)
qed

section \<open>Properties of the retrying probe\<close>

lemma retryable_imp_attempt: "retryable r \<Longrightarrow> retryable_attempt r"
  by (auto simp: retryable_def retryable_attempt_def split: fetch_result.splits)

lemma try_fetch_retryable:
  "retryable (probe n url k) \<Longrightarrow>
   \<exists>err. try_fetch hff n url k w = (Threw err, emit (Fetch url k) w)"
  by (auto simp: try_fetch_def retryable_def ok_def split: fetch_result.splits)

lemma try_fetch_attempt_retryable:
  "retryable_attempt (probe n url k) \<Longrightarrow>
   \<exists>err. try_fetch_attempt hff n url k w = (Threw err, emit (Fetch url k) w)"
  by (auto simp: try_fetch_attempt_def retryable_attempt_def ok_def split: fetch_result.splits)

lemma fetchWithTimeout_retry:
  assumes "retryable (probe n url k)" and "k \<le> MAX_RETRIES"
  shows "fetchWithTimeout hff n url k w =
         fetchWithTimeout hff n url (k + 1)
           (emit (Sleep (RETRY_DELAY * 2 ^ k)) (emit (Fetch url k) w))"
proof -
  obtain err where "try_fetch hff n url k w = (Threw err, emit (Fetch url k) w)"
    using try_fetch_retryable [OF assms(1)] by blast
  then show ?thesis
    using assms(2) by (subst fetchWithTimeout.simps) simp
qed

lemma fetchWithTimeout_exhausted:
  assumes "retryable (probe n url k)" and "MAX_RETRIES < k"
  shows "fetchWithTimeout hff n url k w =
         hff url (emit (FinalFailure url) (emit (Fetch url k) w))"
proof -
  obtain err where "try_fetch hff n url k w = (Threw err, emit (Fetch url k) w)"
    using try_fetch_retryable [OF assms(1)] by blast
  then show ?thesis
    using assms(2) by (subst fetchWithTimeout.simps) simp
qed

lemma fetchWithTimeout_attempt_retry:
  assumes "retryable_attempt (probe n url k)" and "k < MAX_ATTEMPT"
  shows "fetchWithTimeout_attempt hff n url k w =
         fetchWithTimeout_attempt hff n url (k + 1)
           (emit (Sleep (RETRY_DELAY * 2 ^ k)) (emit (Fetch url k) w))"
proof -
  obtain err where "try_fetch_attempt hff n url k w = (Threw err, emit (Fetch url k) w)"
    using try_fetch_attempt_retryable [OF assms(1)] by blast
  then show ?thesis
    using assms(2) by (subst fetchWithTimeout_attempt.simps) simp
qed

lemma fetchWithTimeout_attempt_exhausted:
  assumes "retryable_attempt (probe n url k)" and "\<not> k < MAX_ATTEMPT"
  shows "fetchWithTimeout_attempt hff n url k w =
         hff url (emit (FinalFailure url) (emit (Fetch url k) w))"
proof -
  obtain err where "try_fetch_attempt hff n url k w = (Threw err, emit (Fetch url k) w)"
    using try_fetch_attempt_retryable [OF assms(1)] by blast
  then show ?thesis
    using assms(2) by (subst fetchWithTimeout_attempt.simps) simp
qed

lemma fetchWithTimeout_all_retryable:
  assumes r: "\<And>k. retryable (probe n url k)"
  shows "fetchWithTimeout hff n url 1 w =
           hff url (w\<lparr>trace := trace w @
             [Fetch url 1, Sleep (RETRY_DELAY * 2 ^ 1),
              Fetch url 2, Sleep (RETRY_DELAY * 2 ^ 2),
              Fetch url 3, Sleep (RETRY_DELAY * 2 ^ 3),
              Fetch url 4, FinalFailure url]\<rparr>)"
proof -
  have "fetchWithTimeout hff n url 1 w =
        fetchWithTimeout hff n url 2 (emit (Sleep (RETRY_DELAY * 2 ^ 1)) (emit (Fetch url 1) w))"
    using fetchWithTimeout_retry [OF r, of 1 hff w]
    by (simp add: MAX_RETRIES_def eval_nat_numeral)
  also have "\<dots> = fetchWithTimeout hff n url 3
      (emit (Sleep (RETRY_DELAY * 2 ^ 2)) (emit (Fetch url 2)
        (emit (Sleep (RETRY_DELAY * 2 ^ 1)) (emit (Fetch url 1) w))))"
    using fetchWithTimeout_retry [OF r, of 2 hff]
    by (simp add: MAX_RETRIES_def eval_nat_numeral)
  also have "\<dots> = fetchWithTimeout hff n url 4
      (emit (Sleep (RETRY_DELAY * 2 ^ 3)) (emit (Fetch url 3)
        (emit (Sleep (RETRY_DELAY * 2 ^ 2)) (emit (Fetch url 2)
          (emit (Sleep (RETRY_DELAY * 2 ^ 1)) (emit (Fetch url 1) w))))))"
    using fetchWithTimeout_retry [OF r, of 3 hff]
    by (simp add: MAX_RETRIES_def eval_nat_numeral)
  also have "\<dots> = hff url (emit (FinalFailure url) (emit (Fetch url 4)
      (emit (Sleep (RETRY_DELAY * 2 ^ 3)) (emit (Fetch url 3)
        (emit (Sleep (RETRY_DELAY * 2 ^ 2)) (emit (Fetch url 2)
          (emit (Sleep (RETRY_DELAY * 2 ^ 1)) (emit (Fetch url 1) w))))))))"
    using fetchWithTimeout_exhausted [OF r, of 4 hff]
    by (simp add: MAX_RETRIES_def eval_nat_numeral)
  finally show ?thesis
    by (simp add: emit_def)
qed

lemma fetchWithTimeout_attempt_all_retryable:
  assumes r: "\<And>k. retryable_attempt (probe n url k)"
  shows "fetchWithTimeout_attempt hff n url 1 w =
           hff url (w\<lparr>trace := trace w @
             [Fetch url 1, Sleep (RETRY_DELAY * 2 ^ 1),
              Fetch url 2, Sleep (RETRY_DELAY * 2 ^ 2),
              Fetch url 3, FinalFailure url]\<rparr>)"
proof -
  have "fetchWithTimeout_attempt hff n url 1 w =
        fetchWithTimeout_attempt hff n url 2
          (emit (Sleep (RETRY_DELAY * 2 ^ 1)) (emit (Fetch url 1) w))"
    using fetchWithTimeout_attempt_retry [OF r, of 1 hff w]
    by (simp add: MAX_ATTEMPT_def eval_nat_numeral)
  also have "\<dots> = fetchWithTimeout_attempt hff n url 3
      (emit (Sleep (RETRY_DELAY * 2 ^ 2)) (emit (Fetch url 2)
        (emit (Sleep (RETRY_DELAY * 2 ^ 1)) (emit (Fetch url 1) w))))"
    using fetchWithTimeout_attempt_retry [OF r, of 2 hff]
    by (simp add: MAX_ATTEMPT_def eval_nat_numeral)
  also have "\<dots> = hff url (emit (FinalFailure url) (emit (Fetch url 3)
        (emit (Sleep (RETRY_DELAY * 2 ^ 2)) (emit (Fetch url 2)
          (emit (Sleep (RETRY_DELAY * 2 ^ 1)) (emit (Fetch url 1) w))))))"
    using fetchWithTimeout_attempt_exhausted [OF r, of 3 hff]
    by (simp add: MAX_ATTEMPT_def eval_nat_numeral)
  finally show ?thesis
    by (simp add: emit_def)
qed

lemma retryable_always_5xx: "retryable (probe (net_always 500) url k)"
  by (simp add: net_always_def always_def retryable_def)

lemma retryable_attempt_always_600: "retryable_attempt (probe (net_always 600) url k)"
  by (simp add: net_always_def always_def retryable_attempt_def)

lemma galaxy_test_matches: "js_includes ''https://galaxy.test/'' ''galaxy''"
  by simp

lemma down_test_no_match: "\<not> js_includes ''https://down.test/'' ''galaxy''"
  by simp

text \<open>
  C1, as the code has it. An endpoint whose every attempt times out, fails or
  answers 5xx is probed, starting from attempt 1,
  \<^item> by \<^verbatim>\<open>keepUpCheck_worker.js\<close> and the first prober of \<^verbatim>\<open>part_000\<close>
    (\<^verbatim>\<open>retries <= MAX_RETRIES\<close>) exactly \<open>MAX_RETRIES + 1 = 4\<close> times, with the
    delays \<open>RETRY_DELAY * 2 ^ k\<close> after the attempts \<open>k = 1, 2, 3\<close>;
  \<^item> by the second prober of \<^verbatim>\<open>part_000\<close> (\<^verbatim>\<open>attempt < MAX_ATTEMPT\<close>) exactly
    \<open>MAX_ATTEMPT = 3\<close> times, with the delays \<open>RETRY_DELAY * 2 ^ k\<close> after the
    attempts \<open>k = 1, 2\<close>;
  and in both the final-failure handler is then called, once, on the world those
  requests and delays have left.
\<close>

theorem retryable_endpoint_exhausts_budget:
  assumes "\<forall>k. retryable (probe n url k)"
  shows "fetchWithTimeout hff n url 1 w =
           hff url (w\<lparr>trace := trace w @
             [Fetch url 1, Sleep (RETRY_DELAY * 2 ^ 1),
              Fetch url 2, Sleep (RETRY_DELAY * 2 ^ 2),
              Fetch url 3, Sleep (RETRY_DELAY * 2 ^ 3),
              Fetch url 4, FinalFailure url]\<rparr>)
       \<and> fetchWithTimeout_attempt hff n url 1 w =
           hff url (w\<lparr>trace := trace w @
             [Fetch url 1, Sleep (RETRY_DELAY * 2 ^ 1),
              Fetch url 2, Sleep (RETRY_DELAY * 2 ^ 2),
              Fetch url 3, FinalFailure url]\<rparr>)"
  using assms fetchWithTimeout_all_retryable [of n url hff w]
    fetchWithTimeout_attempt_all_retryable [of n url hff w]
  by (simp add: retryable_imp_attempt)

theorem retryable_endpoint_exhausts_budget_witness:
  "(\<forall>k. retryable (probe (net_always 500) ''https://galaxy.test/'' k))
   \<and> fetchWithTimeout (handleFinalFailure env0 (net_always 500)) (net_always 500)
       ''https://galaxy.test/'' 1 world0
     = world0\<lparr>trace :=
         [Fetch ''https://galaxy.test/'' 1, Sleep 1000,
          Fetch ''https://galaxy.test/'' 2, Sleep 2000,
          Fetch ''https://galaxy.test/'' 3, Sleep 4000,
          Fetch ''https://galaxy.test/'' 4, FinalFailure ''https://galaxy.test/'',
          Trigger (trigger_request env0 ''https://galaxy.test/'')]\<rparr>
   \<and> fetchWithTimeout_attempt (handleFinalFailure_attempt env0 (net_always 500))
       (net_always 500) ''https://galaxy.test/'' 1 world0
     = world0\<lparr>trace :=
         [Fetch ''https://galaxy.test/'' 1, Sleep 1000,
          Fetch ''https://galaxy.test/'' 2, Sleep 2000,
          Fetch ''https://galaxy.test/'' 3, FinalFailure ''https://galaxy.test/'',
          Trigger (trigger_request env0 ''https://galaxy.test/'')]\<rparr>"
proof -
  have h: "\<forall>k. retryable (probe (net_always 500) ''https://galaxy.test/'' k)"
    by (simp add: retryable_always_5xx)
  have a: "fetchWithTimeout (handleFinalFailure env0 (net_always 500)) (net_always 500)
       ''https://galaxy.test/'' 1 world0
     = world0\<lparr>trace :=
         [Fetch ''https://galaxy.test/'' 1, Sleep 1000,
          Fetch ''https://galaxy.test/'' 2, Sleep 2000,
          Fetch ''https://galaxy.test/'' 3, Sleep 4000,
          Fetch ''https://galaxy.test/'' 4, FinalFailure ''https://galaxy.test/'',
          Trigger (trigger_request env0 ''https://galaxy.test/'')]\<rparr>"
    using retryable_endpoint_exhausts_budget [OF h,
        of "handleFinalFailure env0 (net_always 500)" world0] galaxy_test_matches
    by (simp add: handleFinalFailure_def emit_def world0_def RETRY_DELAY_def)
  have b: "fetchWithTimeout_attempt (handleFinalFailure_attempt env0 (net_always 500))
       (net_always 500) ''https://galaxy.test/'' 1 world0
     = world0\<lparr>trace :=
         [Fetch ''https://galaxy.test/'' 1, Sleep 1000,
          Fetch ''https://galaxy.test/'' 2, Sleep 2000,
          Fetch ''https://galaxy.test/'' 3, FinalFailure ''https://galaxy.test/'',
          Trigger (trigger_request env0 ''https://galaxy.test/'')]\<rparr>"
    using retryable_endpoint_exhausts_budget [OF h,
        of "handleFinalFailure_attempt env0 (net_always 500)" world0] galaxy_test_matches
    by (simp add: handleFinalFailure_attempt_def emit_def world0_def RETRY_DELAY_def)
  show ?thesis using h a b by simp
qed

text \<open>
  The claim C1 has the attempt budget of every prober as \<open>3\<close>. Against an endpoint
  that always answers 500, \<^verbatim>\<open>keepUpCheck_worker.js\<close> sends four probe requests,
  one more than \<^verbatim>\<open>MAX_RETRIES\<close>.
\<close>

theorem max_retries_counterexample:
  "attempts (trace (fetchWithTimeout (handleFinalFailure env0 (net_always 500))
      (net_always 500) ''https://down.test/'' 1 world0)) = 4
   \<and> MAX_RETRIES = 3"
  using fetchWithTimeout_all_retryable [of "net_always 500" "''https://down.test/''"
      "handleFinalFailure env0 (net_always 500)" world0, OF retryable_always_5xx]
    down_test_no_match
  by (simp add: handleFinalFailure_def world0_def MAX_RETRIES_def)

lemma fetchWithTimeout_not_retried:
  assumes "probe n url k = Responded status" and "\<not> ok status"
    and "\<not> (500 \<le> status \<and> status < 600)"
  shows "fetchWithTimeout hff n url k w =
         hff url (w\<lparr>trace := trace w @ [Fetch url k, FinalFailure url]\<rparr>)"
proof -
  have "try_fetch hff n url k w =
        (Completed, hff url (emit (FinalFailure url) (emit (Fetch url k) w)))"
    using assms by (auto simp: try_fetch_def Let_def)
  then show ?thesis
    by (subst fetchWithTimeout.simps) (simp add: emit_def)
qed

lemma fetchWithTimeout_attempt_not_retried:
  assumes "probe n url k = Responded status" and "\<not> ok status" and "status < 500"
  shows "fetchWithTimeout_attempt hff n url k w =
         hff url (w\<lparr>trace := trace w @ [Fetch url k, FinalFailure url]\<rparr>)"
proof -
  have "try_fetch_attempt hff n url k w =
        (Completed, hff url (emit (FinalFailure url) (emit (Fetch url k) w)))"
    using assms by (auto simp: try_fetch_attempt_def Let_def)
  then show ?thesis
    by (subst fetchWithTimeout_attempt.simps) (simp add: emit_def)
qed

text \<open>
  C4. When attempt \<open>k\<close> of a probe receives a status that is neither 2xx nor
  5xx, no prober sends a further request, whatever \<open>k\<close> is and whatever is left of
  the budget, and the final-failure handler is called at once; started at attempt 1
  the probe is exactly one request. For \<^verbatim>\<open>keepUpCheck_worker.js\<close> and the first
  prober of \<^verbatim>\<open>part_000\<close> this holds for every such status; for the second prober
  of \<^verbatim>\<open>part_000\<close> for every such status of HTTP (a status below 600).
\<close>

theorem non_retryable_status_is_final:
  assumes "probe n url k = Responded status" and "\<not> ok status"
    and "\<not> (500 \<le> status \<and> status < 600)"
  shows "fetchWithTimeout hff n url k w =
           hff url (w\<lparr>trace := trace w @ [Fetch url k, FinalFailure url]\<rparr>)
       \<and> (status < 600 \<longrightarrow>
            fetchWithTimeout_attempt hff n url k w =
              hff url (w\<lparr>trace := trace w @ [Fetch url k, FinalFailure url]\<rparr>))"
proof (intro conjI impI)
  show "fetchWithTimeout hff n url k w =
        hff url (w\<lparr>trace := trace w @ [Fetch url k, FinalFailure url]\<rparr>)"
    using assms by (rule fetchWithTimeout_not_retried)
next
  assume "status < 600"
  with assms(3) have "status < 500" by simp
  with assms(1,2) show "fetchWithTimeout_attempt hff n url k w =
        hff url (w\<lparr>trace := trace w @ [Fetch url k, FinalFailure url]\<rparr>)"
    by (rule fetchWithTimeout_attempt_not_retried)
qed

theorem non_retryable_status_is_final_witness:
  "probe (net_always 404) ''https://galaxy.test/'' 1 = Responded 404
   \<and> \<not> ok 404
   \<and> \<not> (500 \<le> (404::nat) \<and> (404::nat) < 600)
   \<and> (404::nat) < 600
   \<and> fetchWithTimeout (handleFinalFailure env0 (net_always 404)) (net_always 404)
       ''https://galaxy.test/'' 1 world0
     = world0\<lparr>trace :=
         [Fetch ''https://galaxy.test/'' 1, FinalFailure ''https://galaxy.test/'',
          Trigger (trigger_request env0 ''https://galaxy.test/'')]\<rparr>
   \<and> fetchWithTimeout_attempt (handleFinalFailure env0 (net_always 404)) (net_always 404)
       ''https://galaxy.test/'' 1 world0
     = world0\<lparr>trace :=
         [Fetch ''https://galaxy.test/'' 1, FinalFailure ''https://galaxy.test/'',
          Trigger (trigger_request env0 ''https://galaxy.test/'')]\<rparr>"
proof -
  have p: "probe (net_always 404) ''https://galaxy.test/'' 1 = Responded 404"
    by (simp add: net_always_def always_def)
  have o: "\<not> ok 404" by (simp add: ok_def)
  have r: "\<not> (500 \<le> (404::nat) \<and> (404::nat) < 600)" by simp
  show ?thesis
    using p o non_retryable_status_is_final [OF p o r,
        of "handleFinalFailure env0 (net_always 404)" world0] galaxy_test_matches
    by (simp add: handleFinalFailure_def emit_def world0_def)
qed

text \<open>
  Beyond the statuses of HTTP: the second prober of \<^verbatim>\<open>part_000\<close> tests
  \<^verbatim>\<open>response.status >= 500\<close> without the bound \<^verbatim>\<open>< 600\<close> of the other two, so
  the number 600, were it ever received as a status, is retried like a server error.
\<close>

lemma fetchWithTimeout_attempt_status_600:
  "probe (net_always 600) ''https://down.test/'' 1 = Responded 600
   \<and> \<not> ok 600
   \<and> attempts (trace (fetchWithTimeout_attempt (handleFinalFailure_attempt env0 (net_always 600))
        (net_always 600) ''https://down.test/'' 1 world0)) = 3"
  using fetchWithTimeout_attempt_all_retryable [of "net_always 600" "''https://down.test/''"
      "handleFinalFailure_attempt env0 (net_always 600)" world0,
      OF retryable_attempt_always_600]
    down_test_no_match
  by (simp add: handleFinalFailure_attempt_def world0_def net_always_def always_def ok_def)

section \<open>Evaluating the helpers on concrete strings\<close>

lemmas enc_defs = base64EncodeUtf8_def TextEncoder_encode_def utf8_bytes_def
  String_fromCharCode_def btoa_def b64_char_def is_surrogate_def is_high_surrogate_def
  is_low_surrogate_def

lemmas dec_defs = base64DecodeUtf8_def atob_def strip_padding_def ascii_whitespace_def
  b64_value_def TextDecoder_decode_def strip_bom_def utf8_decode.simps utf16_units_def

section \<open>Properties of the idempotency flag on the prober's side\<close>

lemma triggers_append: "triggers (xs @ ys) = triggers xs @ triggers ys"
  by (induction xs rule: triggers.induct) simp_all

lemma js_includes_nonempty: "js_includes url ''galaxy'' \<Longrightarrow> url \<noteq> []"
  by (cases url) simp_all

lemma kv_get_live:
  "store k = Some (v, expires) \<Longrightarrow> t < expires \<Longrightarrow> kv_get store t k = Some v"
  by (simp add: kv_get_def)

lemma kv_get_absent_or_expired:
  "store k = None \<or> (\<exists>v expires. store k = Some (v, expires) \<and> expires \<le> t)
   \<Longrightarrow> kv_get store t k = None"
  by (auto simp: kv_get_def)

lemma handleFinalFailure_kv_suppressed:
  assumes "js_includes url ''galaxy''"
    and "KV w ''flag'' = Some (''deployed'', expires)" and "now w < expires"
  shows "handleFinalFailure_kv e n url w = emit (KvGet ''flag'') w"
  using assms js_includes_nonempty [OF assms(1)]
    kv_get_live [where store = "KV w" and k = "''flag''", OF assms(2,3)]
  by (simp add: handleFinalFailure_kv_def Let_def KV_emit now_emit)

lemma handleFinalFailure_kv_fires:
  assumes "js_includes url ''galaxy''"
    and "KV w ''flag'' = None
       \<or> (\<exists>v expires. KV w ''flag'' = Some (v, expires) \<and> expires \<le> now w)"
  shows "handleFinalFailure_kv e n url w =
         (if succeeded (deploy n)
          then kv_put ''flag'' ''deployed'' 10800
                 (emit (Trigger (trigger_request e url)) (emit (KvGet ''flag'') w))
          else emit (Trigger (trigger_request e url)) (emit (KvGet ''flag'') w))"
  using js_includes_nonempty [OF assms(1)] assms(1)
    kv_get_absent_or_expired [where store = "KV w" and k = "''flag''", OF assms(2)]
  by (simp add: handleFinalFailure_kv_def Let_def KV_emit now_emit succeeded_def
      split: fetch_result.splits)

section \<open>Properties of the deploy worker\<close>

lemma fetch_unauthorized:
  assumes "pathname req = ''/deploy''" and "http_method req = ''POST''"
    and "token_header req = None \<or> token_header req \<noteq> DEPLOY_TOKEN e"
  shows "fetch req e api w =
         (\<lparr>res_status = 401, res_headers = [(''Content-Type'', ''application/json'')],
           res_body = Json (JObject [(''ok'', JBool False),
                                     (''error'', JString ''Unauthorized'')])\<rparr>, w)"
  using assms by (auto simp: fetch_def json_def falsy_def)

lemma fetch_not_found:
  assumes "\<not> (pathname req = ''/deploy'' \<and> http_method req = ''POST'')"
  shows "fetch req e api w =
         (\<lparr>res_status = 404, res_headers = [], res_body = Text ''Not Found''\<rparr>, w)"
  using assms by (auto simp: fetch_def)

lemma fetch_authorized:
  assumes "pathname req = ''/deploy''" and "http_method req = ''POST''"
    and "\<not> falsy (token_header req)" and "token_header req = DEPLOY_TOKEN e"
  shows "fetch req e api w =
         (case run e api w of
            (Inr result, w') \<Rightarrow>
              (json (JObject [(''ok'', JBool True), (''result'', result_json result)]) 200, w')
          | (Inl (Error msg), w') \<Rightarrow>
              (json (JObject [(''ok'', JBool False), (''error'', JString msg)]) 500, w'))"
  using assms by (simp add: fetch_def)

lemma run_unconfigured:
  assumes "falsy (GITHUB_TOKEN e) \<or> falsy (GH_CONTENT_API_URL e)"
  shows "run e api w = (Inl (Error config_missing), w)"
  using assms by (auto simp: run_def falsy_def split: option.splits)

lemma run_configured:
  assumes "GITHUB_TOKEN e = Some token" and "token \<noteq> []"
    and "GH_CONTENT_API_URL e = Some apiUrl" and "apiUrl \<noteq> []"
  shows "run e api w =
     (let w1 = emit (KvGet FLAG_KEY) w in
      if kv_get (KV w) (now w) FLAG_KEY = Some ''deployed''
      then (Inr (Skipped ''already deployed (within 3 hours)''), w1)
      else
        (case getFile token apiUrl (GH_BRANCH e) api w1 of
           (Inl err, w2) \<Rightarrow> (Inl err, w2)
         | (Inr f, w2) \<Rightarrow>
             (case base64DecodeUtf8 (file_content f) of
                None \<Rightarrow> (Inl (Error (thrown_message api)), w2)
              | Some rawContent \<Rightarrow>
                  let newContent = updateTimestampSection api rawContent in
                  if newContent = rawContent
                  then (Inr (Skipped ''content unchanged''), w2)
                  else
                    (case updateFile token apiUrl (GH_BRANCH e) (file_sha f) newContent api w2 of
                       (Inl err, w3) \<Rightarrow> (Inl err, w3)
                     | (Inr u, w3) \<Rightarrow>
                         (Inr Deployed, kv_put FLAG_KEY ''deployed'' FLAG_TTL w3)))))"
  using assms by (simp add: run_def Let_def KV_emit now_emit)

lemma not_falsy: "\<not> falsy v \<Longrightarrow> \<exists>s. v = Some s \<and> s \<noteq> []"
  by (cases v) (simp_all add: falsy_def)

lemma KV_getFile: "getFile token apiUrl branch api w = (r, w') \<Longrightarrow> KV w' = KV w"
  by (auto simp: getFile_def Let_def KV_emit split: fetch_result.splits if_splits)

lemma KV_updateFile: "updateFile token apiUrl branch s c api w = (r, w') \<Longrightarrow> KV w' = KV w"
  by (auto simp: updateFile_def Let_def KV_emit
      split: fetch_result.splits option.splits if_splits)

lemma run_error_keeps_store:
  assumes "run e api w = (Inl err, w')"
  shows "KV w' = KV w"
proof (cases "falsy (GITHUB_TOKEN e) \<or> falsy (GH_CONTENT_API_URL e)")
  case True
  then show ?thesis using assms by (simp add: run_unconfigured)
next
  case False
  then obtain token apiUrl where c: "GITHUB_TOKEN e = Some token" "token \<noteq> []"
      "GH_CONTENT_API_URL e = Some apiUrl" "apiUrl \<noteq> []"
    using not_falsy by blast
  obtain r1 w1 where g: "getFile token apiUrl (GH_BRANCH e) api (emit (KvGet FLAG_KEY) w) = (r1, w1)"
    by (cases "getFile token apiUrl (GH_BRANCH e) api (emit (KvGet FLAG_KEY) w)")
  have k1: "KV w1 = KV w"
    using KV_getFile [OF g] by (simp add: KV_emit)
  have k2: "updateFile token apiUrl (GH_BRANCH e) s c api w1 = (r, w3) \<Longrightarrow> KV w3 = KV w"
    for s c r w3
    using KV_updateFile [of token apiUrl "GH_BRANCH e" s c api w1 r w3] k1 by simp
  show ?thesis
    using assms g k1 k2
    by (auto simp: run_configured [OF c] Let_def
        split: if_splits sum.splits option.splits prod.splits)
qed

lemma fixture_requests:
  "pathname (deploy_request path m tok) = path"
  "http_method (deploy_request path m tok) = m"
  "token_header (deploy_request path m tok) = tok"
  by (simp_all add: deploy_request_def)

text \<open>
  C8. A \<^verbatim>\<open>POST /deploy\<close> whose \<^verbatim>\<open>X-Deploy-Token\<close> header is missing or differs
  from \<^verbatim>\<open>DEPLOY_TOKEN\<close> is answered 401 with the body
  \<^verbatim>\<open>{"ok": false, "error": "Unauthorized"}\<close>, and the world is returned as it was
  (no read of the flag, no call of the content API, no write). Every request with
  another path or another method is answered 404, the world again untouched.
\<close>

theorem deploy_guard:
  "(pathname req = ''/deploy'' \<and> http_method req = ''POST''
      \<and> (token_header req = None \<or> token_header req \<noteq> DEPLOY_TOKEN e)
     \<longrightarrow> fetch req e api w =
         (\<lparr>res_status = 401, res_headers = [(''Content-Type'', ''application/json'')],
           res_body = Json (JObject [(''ok'', JBool False),
                                     (''error'', JString ''Unauthorized'')])\<rparr>, w))
   \<and> (\<not> (pathname req = ''/deploy'' \<and> http_method req = ''POST'')
     \<longrightarrow> fetch req e api w =
         (\<lparr>res_status = 404, res_headers = [], res_body = Text ''Not Found''\<rparr>, w))"
  using fetch_unauthorized [of req e api w] fetch_not_found [of req e api w] by blast

theorem deploy_guard_witness:
  "fetch (deploy_request ''/deploy'' ''POST'' None) senv0 (api_replying 200 200) world0 =
     (\<lparr>res_status = 401, res_headers = [(''Content-Type'', ''application/json'')],
       res_body = Json (JObject [(''ok'', JBool False),
                                 (''error'', JString ''Unauthorized'')])\<rparr>, world0)
   \<and> fetch (deploy_request ''/deploy'' ''POST'' (Some ''guess'')) senv0 (api_replying 200 200)
       world0 =
     (\<lparr>res_status = 401, res_headers = [(''Content-Type'', ''application/json'')],
       res_body = Json (JObject [(''ok'', JBool False),
                                 (''error'', JString ''Unauthorized'')])\<rparr>, world0)
   \<and> fetch (deploy_request ''/deploy'' ''GET'' (Some ''secret'')) senv0 (api_replying 200 200)
       world0 =
     (\<lparr>res_status = 404, res_headers = [], res_body = Text ''Not Found''\<rparr>, world0)
   \<and> fetch (deploy_request ''/status'' ''POST'' (Some ''secret'')) senv0 (api_replying 200 200)
       world0 =
     (\<lparr>res_status = 404, res_headers = [], res_body = Text ''Not Found''\<rparr>, world0)"
  using deploy_guard [of "deploy_request ''/deploy'' ''POST'' None" senv0
      "api_replying 200 200" world0]
    deploy_guard [of "deploy_request ''/deploy'' ''POST'' (Some ''guess'')" senv0
      "api_replying 200 200" world0]
    deploy_guard [of "deploy_request ''/deploy'' ''GET'' (Some ''secret'')" senv0
      "api_replying 200 200" world0]
    deploy_guard [of "deploy_request ''/status'' ''POST'' (Some ''secret'')" senv0
      "api_replying 200 200" world0]
  by (simp add: fixture_requests senv0_def)

lemma fetch_error_keeps_store:
  assumes "pathname req = ''/deploy''" and "http_method req = ''POST''"
    and "\<not> falsy (token_header req)" and "token_header req = DEPLOY_TOKEN e"
    and "res_status (fst (fetch req e api w)) = 500"
  shows "KV (snd (fetch req e api w)) = KV w"
proof (cases "run e api w")
  case (Pair r w')
  show ?thesis
  proof (cases r)
    case (Inl err)
    then have "KV w' = KV w" using Pair run_error_keeps_store by blast
    then show ?thesis
      using Pair Inl by (cases err) (simp add: fetch_authorized [OF assms(1-4)])
  next
    case (Inr res)
    then show ?thesis
      using Pair assms(5) by (simp add: fetch_authorized [OF assms(1-4)] json_def)
  qed
qed

lemma fetch_read_failure:
  assumes "pathname req = ''/deploy''" and "http_method req = ''POST''"
    and "\<not> falsy (token_header req)" and "token_header req = DEPLOY_TOKEN e"
    and "\<not> falsy (GITHUB_TOKEN e)" and "\<not> falsy (GH_CONTENT_API_URL e)"
    and "kv_get (KV w) (now w) FLAG_KEY \<noteq> Some ''deployed''"
    and "get_result api = Responded st" and "\<not> ok st"
  shows "fst (fetch req e api w) =
         \<lparr>res_status = 500, res_headers = [(''Content-Type'', ''application/json'')],
          res_body = Json (JObject [(''ok'', JBool False),
                                    (''error'', JString (read_failed st))])\<rparr>"
proof -
  obtain token apiUrl where c: "GITHUB_TOKEN e = Some token" "token \<noteq> []"
      "GH_CONTENT_API_URL e = Some apiUrl" "apiUrl \<noteq> []"
    using not_falsy assms(5,6) by blast
  show ?thesis
    using assms(7-9)
    by (simp add: fetch_authorized [OF assms(1-4)] run_configured [OF c] Let_def
        getFile_def json_def)
qed

lemma fetch_update_failure:
  assumes "pathname req = ''/deploy''" and "http_method req = ''POST''"
    and "\<not> falsy (token_header req)" and "token_header req = DEPLOY_TOKEN e"
    and "\<not> falsy (GITHUB_TOKEN e)" and "\<not> falsy (GH_CONTENT_API_URL e)"
    and "kv_get (KV w) (now w) FLAG_KEY \<noteq> Some ''deployed''"
    and "succeeded (get_result api)"
    and "base64DecodeUtf8 (file_content (get_file api)) = Some raw"
    and "updateTimestampSection api raw \<noteq> raw"
    and "base64EncodeUtf8 (updateTimestampSection api raw) = Some encoded"
    and "put_result api = Responded st" and "\<not> ok st"
  shows "fst (fetch req e api w) =
         \<lparr>res_status = 500, res_headers = [(''Content-Type'', ''application/json'')],
          res_body = Json (JObject [(''ok'', JBool False),
                                    (''error'', JString (commit_failed st))])\<rparr>"
proof -
  obtain token apiUrl where c: "GITHUB_TOKEN e = Some token" "token \<noteq> []"
      "GH_CONTENT_API_URL e = Some apiUrl" "apiUrl \<noteq> []"
    using not_falsy assms(5,6) by blast
  obtain gs where g: "get_result api = Responded gs" "ok gs"
    using assms(8) by (auto simp: succeeded_def split: fetch_result.splits)
  show ?thesis
    using assms(7,9-13) g
    by (simp add: fetch_authorized [OF assms(1-4)] run_configured [OF c] Let_def
        getFile_def updateFile_def json_def)
qed

text \<open>
  C9. For an authorised \<^verbatim>\<open>POST /deploy\<close>:
  \<^item> when \<^verbatim>\<open>GITHUB_TOKEN\<close> or \<^verbatim>\<open>GH_CONTENT_API_URL\<close> is missing, the answer is 500
    with \<^verbatim>\<open>{"ok": false, "error": <message>}\<close> and the world is untouched;
  \<^item> when the content read is made and answered with a non-2xx status, the answer
    is 500 with the message of the failed read;
  \<^item> when the content update is made and answered with a non-2xx status, the
    answer is 500 with the message of the failed commit;
  \<^item> whenever the answer is 500, the KV store is the one the request found: the
    flag is not written.
\<close>

theorem failure_is_500_and_keeps_flag:
  assumes "pathname req = ''/deploy''" and "http_method req = ''POST''"
    and "\<not> falsy (token_header req)" and "token_header req = DEPLOY_TOKEN e"
  shows "(falsy (GITHUB_TOKEN e) \<or> falsy (GH_CONTENT_API_URL e) \<longrightarrow>
            fetch req e api w =
              (\<lparr>res_status = 500, res_headers = [(''Content-Type'', ''application/json'')],
                res_body = Json (JObject [(''ok'', JBool False),
                                          (''error'', JString config_missing)])\<rparr>, w))
       \<and> (\<not> falsy (GITHUB_TOKEN e) \<and> \<not> falsy (GH_CONTENT_API_URL e)
            \<and> kv_get (KV w) (now w) FLAG_KEY \<noteq> Some ''deployed''
            \<and> get_result api = Responded st \<and> \<not> ok st \<longrightarrow>
            fst (fetch req e api w) =
              \<lparr>res_status = 500, res_headers = [(''Content-Type'', ''application/json'')],
               res_body = Json (JObject [(''ok'', JBool False),
                                         (''error'', JString (read_failed st))])\<rparr>)
       \<and> (\<not> falsy (GITHUB_TOKEN e) \<and> \<not> falsy (GH_CONTENT_API_URL e)
            \<and> kv_get (KV w) (now w) FLAG_KEY \<noteq> Some ''deployed''
            \<and> succeeded (get_result api)
            \<and> base64DecodeUtf8 (file_content (get_file api)) = Some raw
            \<and> updateTimestampSection api raw \<noteq> raw
            \<and> base64EncodeUtf8 (updateTimestampSection api raw) = Some encoded
            \<and> put_result api = Responded st \<and> \<not> ok st \<longrightarrow>
            fst (fetch req e api w) =
              \<lparr>res_status = 500, res_headers = [(''Content-Type'', ''application/json'')],
               res_body = Json (JObject [(''ok'', JBool False),
                                         (''error'', JString (commit_failed st))])\<rparr>)
       \<and> (res_status (fst (fetch req e api w)) = 500 \<longrightarrow>
            KV (snd (fetch req e api w)) = KV w)"
proof (intro conjI impI)
  assume "falsy (GITHUB_TOKEN e) \<or> falsy (GH_CONTENT_API_URL e)"
  then show "fetch req e api w =
      (\<lparr>res_status = 500, res_headers = [(''Content-Type'', ''application/json'')],
        res_body = Json (JObject [(''ok'', JBool False),
                                  (''error'', JString config_missing)])\<rparr>, w)"
    by (simp add: fetch_authorized [OF assms] run_unconfigured json_def)
next
  assume "\<not> falsy (GITHUB_TOKEN e) \<and> \<not> falsy (GH_CONTENT_API_URL e)
            \<and> kv_get (KV w) (now w) FLAG_KEY \<noteq> Some ''deployed''
            \<and> get_result api = Responded st \<and> \<not> ok st"
  then show "fst (fetch req e api w) =
      \<lparr>res_status = 500, res_headers = [(''Content-Type'', ''application/json'')],
       res_body = Json (JObject [(''ok'', JBool False),
                                 (''error'', JString (read_failed st))])\<rparr>"
    using fetch_read_failure [OF assms] by blast
next
  assume "\<not> falsy (GITHUB_TOKEN e) \<and> \<not> falsy (GH_CONTENT_API_URL e)
            \<and> kv_get (KV w) (now w) FLAG_KEY \<noteq> Some ''deployed''
            \<and> succeeded (get_result api)
            \<and> base64DecodeUtf8 (file_content (get_file api)) = Some raw
            \<and> updateTimestampSection api raw \<noteq> raw
            \<and> base64EncodeUtf8 (updateTimestampSection api raw) = Some encoded
            \<and> put_result api = Responded st \<and> \<not> ok st"
  then show "fst (fetch req e api w) =
      \<lparr>res_status = 500, res_headers = [(''Content-Type'', ''application/json'')],
       res_body = Json (JObject [(''ok'', JBool False),
                                 (''error'', JString (commit_failed st))])\<rparr>"
    using fetch_update_failure [OF assms] by blast
next
  assume "res_status (fst (fetch req e api w)) = 500"
  then show "KV (snd (fetch req e api w)) = KV w"
    using fetch_error_keeps_store [OF assms] by blast
qed

theorem failure_is_500_and_keeps_flag_witness:
  "fetch (deploy_request ''/deploy'' ''POST'' (Some ''secret'')) senv_unconfigured
       (api_replying 200 200) world0 =
     (\<lparr>res_status = 500, res_headers = [(''Content-Type'', ''application/json'')],
       res_body = Json (JObject [(''ok'', JBool False),
                                 (''error'', JString config_missing)])\<rparr>, world0)
   \<and> fst (fetch (deploy_request ''/deploy'' ''POST'' (Some ''secret'')) senv0
       (api_replying 404 200) world0) =
     \<lparr>res_status = 500, res_headers = [(''Content-Type'', ''application/json'')],
      res_body = Json (JObject [(''ok'', JBool False),
                                (''error'', JString (read_failed 404))])\<rparr>
   \<and> KV (snd (fetch (deploy_request ''/deploy'' ''POST'' (Some ''secret'')) senv0
       (api_replying 404 200) world0)) = KV world0
   \<and> fst (fetch (deploy_request ''/deploy'' ''POST'' (Some ''secret'')) senv0
       (api_replying 200 422) world0) =
     \<lparr>res_status = 500, res_headers = [(''Content-Type'', ''application/json'')],
      res_body = Json (JObject [(''ok'', JBool False),
                                (''error'', JString (commit_failed 422))])\<rparr>
   \<and> KV (snd (fetch (deploy_request ''/deploy'' ''POST'' (Some ''secret'')) senv0
       (api_replying 200 422) world0)) = KV world0"
proof -
  let ?req = "deploy_request ''/deploy'' ''POST'' (Some ''secret'')"
  have a: "pathname ?req = ''/deploy''" "http_method ?req = ''POST''"
    "\<not> falsy (token_header ?req)"
    by (simp_all add: fixture_requests falsy_def)
  have t0: "token_header ?req = DEPLOY_TOKEN senv0"
    by (simp add: fixture_requests senv0_def)
  have tu: "token_header ?req = DEPLOY_TOKEN senv_unconfigured"
    by (simp add: fixture_requests senv_unconfigured_def)
  have u: "falsy (GITHUB_TOKEN senv_unconfigured)"
    by (simp add: senv_unconfigured_def falsy_def)
  have c: "\<not> falsy (GITHUB_TOKEN senv0)" "\<not> falsy (GH_CONTENT_API_URL senv0)"
    by (simp_all add: senv0_def falsy_def)
  have k: "kv_get (KV world0) (now world0) FLAG_KEY \<noteq> Some ''deployed''"
    by (simp add: world0_def kv_get_def)
  have g404: "get_result (api_replying 404 200) = Responded 404" "\<not> ok 404"
    by (simp_all add: api_replying_def ok_def)
  have g200: "succeeded (get_result (api_replying 200 422))"
    by (simp add: api_replying_def succeeded_def ok_def)
  have d: "base64DecodeUtf8 (file_content (get_file (api_replying 200 422))) = Some [104, 105]"
    by (simp add: api_replying_def dec_defs)
  have n: "updateTimestampSection (api_replying 200 422) [104, 105] \<noteq> [104, 105]"
    by (simp add: api_replying_def append_line_feed_def)
  have en: "base64EncodeUtf8 (updateTimestampSection (api_replying 200 422) [104, 105])
      = Some [97, 71, 107, 75]"
    by (simp add: api_replying_def append_line_feed_def enc_defs)
  have p422: "put_result (api_replying 200 422) = Responded 422" "\<not> ok 422"
    by (simp_all add: api_replying_def ok_def)
  note w1 = failure_is_500_and_keeps_flag [OF a(1) a(2) a(3) tu,
      where api = "api_replying 200 200" and w = world0]
  note w2 = failure_is_500_and_keeps_flag [OF a(1) a(2) a(3) t0,
      where api = "api_replying 404 200" and w = world0 and st = 404]
  note w3 = failure_is_500_and_keeps_flag [OF a(1) a(2) a(3) t0,
      where api = "api_replying 200 422" and w = world0 and st = 422
        and raw = "[104, 105]" and encoded = "[97, 71, 107, 75]"]
  have r1: "fetch ?req senv_unconfigured (api_replying 200 200) world0 =
     (\<lparr>res_status = 500, res_headers = [(''Content-Type'', ''application/json'')],
       res_body = Json (JObject [(''ok'', JBool False),
                                 (''error'', JString config_missing)])\<rparr>, world0)"
    using w1 u by blast
  have r2: "fst (fetch ?req senv0 (api_replying 404 200) world0) =
     \<lparr>res_status = 500, res_headers = [(''Content-Type'', ''application/json'')],
      res_body = Json (JObject [(''ok'', JBool False),
                                (''error'', JString (read_failed 404))])\<rparr>"
    using w2 c k g404 by blast
  have r3: "fst (fetch ?req senv0 (api_replying 200 422) world0) =
     \<lparr>res_status = 500, res_headers = [(''Content-Type'', ''application/json'')],
      res_body = Json (JObject [(''ok'', JBool False),
                                (''error'', JString (commit_failed 422))])\<rparr>"
    using w3 c k g200 d n en p422 by blast
  have s2: "res_status (fst (fetch ?req senv0 (api_replying 404 200) world0)) = 500"
    by (simp add: r2)
  have s3: "res_status (fst (fetch ?req senv0 (api_replying 200 422) world0)) = 500"
    by (simp add: r3)
  have k2: "KV (snd (fetch ?req senv0 (api_replying 404 200) world0)) = KV world0"
    using w2 s2 by blast
  have k3: "KV (snd (fetch ?req senv0 (api_replying 200 422) world0)) = KV world0"
    using w3 s3 by blast
  show ?thesis using r1 r2 r3 k2 k3 by blast
qed

lemma fetch_skipped_when_deployed:
  assumes "pathname req = ''/deploy''" and "http_method req = ''POST''"
    and "\<not> falsy (token_header req)" and "token_header req = DEPLOY_TOKEN e"
    and "\<not> falsy (GITHUB_TOKEN e)" and "\<not> falsy (GH_CONTENT_API_URL e)"
    and "KV w ''flag'' = Some (''deployed'', expires)" and "now w < expires"
  shows "fetch req e api w =
         (\<lparr>res_status = 200, res_headers = [(''Content-Type'', ''application/json'')],
           res_body = Json (JObject [(''ok'', JBool True),
             (''result'', JObject [(''skipped'', JBool True),
                (''reason'', JString ''already deployed (within 3 hours)'')])])\<rparr>,
          emit (KvGet ''flag'') w)"
proof -
  obtain token apiUrl where c: "GITHUB_TOKEN e = Some token" "token \<noteq> []"
      "GH_CONTENT_API_URL e = Some apiUrl" "apiUrl \<noteq> []"
    using not_falsy assms(5,6) by blast
  have "kv_get (KV w) (now w) FLAG_KEY = Some ''deployed''"
    using assms(7,8) by (simp add: kv_get_def FLAG_KEY_def)
  then show ?thesis
    by (simp add: fetch_authorized [OF assms(1-4)] run_configured [OF c] Let_def json_def
        FLAG_KEY_def)
qed

text \<open>
  C2. While the key \<^verbatim>\<open>flag\<close> holds \<^verbatim>\<open>deployed\<close> and has not expired, the
  final-failure handler of the first prober of \<^verbatim>\<open>part_000\<close>, called for a URL
  with the keyword, only reads the flag: it sends no request to the deploy
  interface. An authorised \<^verbatim>\<open>POST /deploy\<close> to the configured deploy worker in
  that state is answered 200 with \<^verbatim>\<open>result.skipped = true\<close>, and the worker
  only reads the flag: no content read, no content update, no write of the flag.
\<close>

theorem deployed_flag_suppresses_remediation:
  assumes "js_includes url ''galaxy''"
    and "KV w ''flag'' = Some (''deployed'', expires)" and "now w < expires"
  shows "handleFinalFailure_kv e n url w = emit (KvGet ''flag'') w
       \<and> triggers (trace (handleFinalFailure_kv e n url w)) = triggers (trace w)
       \<and> (pathname req = ''/deploy'' \<and> http_method req = ''POST''
            \<and> \<not> falsy (token_header req) \<and> token_header req = DEPLOY_TOKEN se
            \<and> \<not> falsy (GITHUB_TOKEN se) \<and> \<not> falsy (GH_CONTENT_API_URL se) \<longrightarrow>
          fetch req se api w =
            (\<lparr>res_status = 200, res_headers = [(''Content-Type'', ''application/json'')],
              res_body = Json (JObject [(''ok'', JBool True),
                (''result'', JObject [(''skipped'', JBool True),
                   (''reason'', JString ''already deployed (within 3 hours)'')])])\<rparr>,
             emit (KvGet ''flag'') w))"
proof (intro conjI impI)
  show h: "handleFinalFailure_kv e n url w = emit (KvGet ''flag'') w"
    using assms by (rule handleFinalFailure_kv_suppressed)
  show "triggers (trace (handleFinalFailure_kv e n url w)) = triggers (trace w)"
    by (simp add: h trace_emit triggers_append)
next
  assume "pathname req = ''/deploy'' \<and> http_method req = ''POST''
            \<and> \<not> falsy (token_header req) \<and> token_header req = DEPLOY_TOKEN se
            \<and> \<not> falsy (GITHUB_TOKEN se) \<and> \<not> falsy (GH_CONTENT_API_URL se)"
  then show "fetch req se api w =
            (\<lparr>res_status = 200, res_headers = [(''Content-Type'', ''application/json'')],
              res_body = Json (JObject [(''ok'', JBool True),
                (''result'', JObject [(''skipped'', JBool True),
                   (''reason'', JString ''already deployed (within 3 hours)'')])])\<rparr>,
             emit (KvGet ''flag'') w)"
    using fetch_skipped_when_deployed [of req se w expires api] assms(2,3) by blast
qed

theorem deployed_flag_suppresses_remediation_witness:
  "js_includes ''https://galaxy.test/'' ''galaxy''
   \<and> KV world_deployed ''flag'' = Some (''deployed'', 10800)
   \<and> now world_deployed < 10800
   \<and> handleFinalFailure_kv env0 (net_always 503) ''https://galaxy.test/'' world_deployed
       = world_deployed\<lparr>trace := [KvGet ''flag'']\<rparr>
   \<and> triggers (trace (handleFinalFailure_kv env0 (net_always 503) ''https://galaxy.test/''
       world_deployed)) = []
   \<and> fetch (deploy_request ''/deploy'' ''POST'' (Some ''secret'')) senv0 (api_replying 200 200)
       world_deployed =
       (\<lparr>res_status = 200, res_headers = [(''Content-Type'', ''application/json'')],
         res_body = Json (JObject [(''ok'', JBool True),
           (''result'', JObject [(''skipped'', JBool True),
              (''reason'', JString ''already deployed (within 3 hours)'')])])\<rparr>,
        world_deployed\<lparr>trace := [KvGet ''flag'']\<rparr>)"
proof -
  have k: "KV world_deployed ''flag'' = Some (''deployed'', 10800)"
    by (simp add: world_deployed_def)
  have t: "now world_deployed < 10800"
    by (simp add: world_deployed_def)
  have a: "pathname (deploy_request ''/deploy'' ''POST'' (Some ''secret'')) = ''/deploy''
     \<and> http_method (deploy_request ''/deploy'' ''POST'' (Some ''secret'')) = ''POST''
     \<and> \<not> falsy (token_header (deploy_request ''/deploy'' ''POST'' (Some ''secret'')))
     \<and> token_header (deploy_request ''/deploy'' ''POST'' (Some ''secret'')) = DEPLOY_TOKEN senv0
     \<and> \<not> falsy (GITHUB_TOKEN senv0) \<and> \<not> falsy (GH_CONTENT_API_URL senv0)"
    by (simp add: fixture_requests falsy_def senv0_def)
  note th = deployed_flag_suppresses_remediation [OF galaxy_test_matches k t,
        of env0 "net_always 503" "deploy_request ''/deploy'' ''POST'' (Some ''secret'')"
          senv0 "api_replying 200 200"]
  have e: "emit (KvGet ''flag'') world_deployed = world_deployed\<lparr>trace := [KvGet ''flag'']\<rparr>"
    by (simp add: emit_def world_deployed_def)
  have tr: "triggers (trace world_deployed) = []"
    by (simp add: world_deployed_def)
  from th a have r: "handleFinalFailure_kv env0 (net_always 503) ''https://galaxy.test/'' world_deployed
       = emit (KvGet ''flag'') world_deployed
     \<and> triggers (trace (handleFinalFailure_kv env0 (net_always 503) ''https://galaxy.test/''
         world_deployed)) = triggers (trace world_deployed)
     \<and> fetch (deploy_request ''/deploy'' ''POST'' (Some ''secret'')) senv0 (api_replying 200 200)
       world_deployed =
       (\<lparr>res_status = 200, res_headers = [(''Content-Type'', ''application/json'')],
         res_body = Json (JObject [(''ok'', JBool True),
           (''result'', JObject [(''skipped'', JBool True),
              (''reason'', JString ''already deployed (within 3 hours)'')])])\<rparr>,
        emit (KvGet ''flag'') world_deployed)"
    by blast
  show ?thesis
    using galaxy_test_matches k t r unfolding e tr by blast
qed

lemma now_getFile: "getFile token apiUrl branch api w = (r, w') \<Longrightarrow> now w' = now w"
  by (auto simp: getFile_def Let_def now_emit split: fetch_result.splits if_splits)

lemma now_updateFile: "updateFile token apiUrl branch s c api w = (r, w') \<Longrightarrow> now w' = now w"
  by (auto simp: updateFile_def Let_def now_emit
      split: fetch_result.splits option.splits if_splits)

lemma KV_kv_put: "KV (kv_put k v ttl w) = (KV w)(k \<mapsto> (v, now w + ttl))"
  by (simp add: kv_put_def)

lemma run_deployed_writes_flag:
  assumes "run se api w = (Inr Deployed, w')"
  shows "KV w' = (KV w)(''flag'' \<mapsto> (''deployed'', now w + 10800))"
proof (cases "falsy (GITHUB_TOKEN se) \<or> falsy (GH_CONTENT_API_URL se)")
  case True
  then show ?thesis using assms by (simp add: run_unconfigured)
next
  case False
  then obtain token apiUrl where c: "GITHUB_TOKEN se = Some token" "token \<noteq> []"
      "GH_CONTENT_API_URL se = Some apiUrl" "apiUrl \<noteq> []"
    using not_falsy by blast
  obtain r1 w1 where
    g: "getFile token apiUrl (GH_BRANCH se) api (emit (KvGet FLAG_KEY) w) = (r1, w1)"
    by (cases "getFile token apiUrl (GH_BRANCH se) api (emit (KvGet FLAG_KEY) w)")
  have k1: "KV w1 = KV w" "now w1 = now w"
    using KV_getFile [OF g] now_getFile [OF g] by (simp_all add: KV_emit now_emit)
  have k2: "updateFile token apiUrl (GH_BRANCH se) s c api w1 = (r, w3)
      \<Longrightarrow> KV w3 = KV w \<and> now w3 = now w" for s c r w3
    using KV_updateFile [of token apiUrl "GH_BRANCH se" s c api w1 r w3]
      now_updateFile [of token apiUrl "GH_BRANCH se" s c api w1 r w3] k1 by simp
  show ?thesis
    using assms g k1 k2
    by (auto simp: run_configured [OF c] Let_def KV_kv_put FLAG_KEY_def FLAG_TTL_def
        split: if_splits sum.splits option.splits prod.splits)
qed

text \<open>
  C3. While the key \<^verbatim>\<open>flag\<close> is absent or expired, the final-failure handler of
  the first prober of \<^verbatim>\<open>part_000\<close>, called for a URL with the keyword, sends
  exactly one request to the deploy interface. After a 2xx response it writes
  \<^verbatim>\<open>flag = deployed\<close> with a TTL of 10800 seconds; after any other outcome the KV
  store is the one it found. The probe of such an endpoint that fails at every
  attempt sends that one request and no other. The deploy worker, when its run ends
  in \<^verbatim>\<open>deployed\<close>, has written the same flag with the same TTL.
\<close>

theorem absent_flag_triggers_once:
  assumes "js_includes url ''galaxy''"
    and "KV w ''flag'' = None
       \<or> (\<exists>v expires. KV w ''flag'' = Some (v, expires) \<and> expires \<le> now w)"
  shows "triggers (trace (handleFinalFailure_kv e n url w))
           = triggers (trace w) @ [trigger_request e url]
       \<and> (succeeded (deploy n) \<longrightarrow>
            KV (handleFinalFailure_kv e n url w)
              = (KV w)(''flag'' \<mapsto> (''deployed'', now w + 10800))
          \<and> trace (handleFinalFailure_kv e n url w)
              = trace w @ [KvGet ''flag'', Trigger (trigger_request e url),
                           KvPut ''flag'' ''deployed'' 10800])
       \<and> (\<not> succeeded (deploy n) \<longrightarrow>
            KV (handleFinalFailure_kv e n url w) = KV w
          \<and> trace (handleFinalFailure_kv e n url w)
              = trace w @ [KvGet ''flag'', Trigger (trigger_request e url)])
       \<and> ((\<forall>k. retryable (probe n url k)) \<longrightarrow>
            triggers (trace (fetchWithTimeout (handleFinalFailure_kv e n) n url 1 w))
              = triggers (trace w) @ [trigger_request e url])
       \<and> (run se api w = (Inr Deployed, w') \<longrightarrow>
            KV w' = (KV w)(''flag'' \<mapsto> (''deployed'', now w + 10800)))"
proof (intro conjI impI)
  note f = handleFinalFailure_kv_fires [OF assms, of e n]
  show "triggers (trace (handleFinalFailure_kv e n url w))
           = triggers (trace w) @ [trigger_request e url]"
    by (simp add: f trace_emit trace_kv_put triggers_append)
  show "KV (handleFinalFailure_kv e n url w)
          = (KV w)(''flag'' \<mapsto> (''deployed'', now w + 10800))"
    if "succeeded (deploy n)"
    using that by (simp add: f KV_kv_put KV_emit now_emit)
  show "trace (handleFinalFailure_kv e n url w)
          = trace w @ [KvGet ''flag'', Trigger (trigger_request e url),
                       KvPut ''flag'' ''deployed'' 10800]"
    if "succeeded (deploy n)"
    using that by (simp add: f trace_emit trace_kv_put)
  show "KV (handleFinalFailure_kv e n url w) = KV w" if "\<not> succeeded (deploy n)"
    using that by (simp add: f KV_emit)
  show "trace (handleFinalFailure_kv e n url w)
          = trace w @ [KvGet ''flag'', Trigger (trigger_request e url)]"
    if "\<not> succeeded (deploy n)"
    using that by (simp add: f trace_emit)
  show "triggers (trace (fetchWithTimeout (handleFinalFailure_kv e n) n url 1 w))
          = triggers (trace w) @ [trigger_request e url]"
    if r: "\<forall>k. retryable (probe n url k)"
  proof -
    let ?w = "w\<lparr>trace := trace w @
             [Fetch url 1, Sleep (RETRY_DELAY * 2 ^ 1),
              Fetch url 2, Sleep (RETRY_DELAY * 2 ^ 2),
              Fetch url 3, Sleep (RETRY_DELAY * 2 ^ 3),
              Fetch url 4, FinalFailure url]\<rparr>"
    have k: "KV ?w ''flag'' = None
       \<or> (\<exists>v expires. KV ?w ''flag'' = Some (v, expires) \<and> expires \<le> now ?w)"
      using assms(2) by simp
    have "fetchWithTimeout (handleFinalFailure_kv e n) n url 1 w
          = handleFinalFailure_kv e n url ?w"
      by (rule fetchWithTimeout_all_retryable) (simp add: r)
    moreover have "triggers (trace (handleFinalFailure_kv e n url ?w))
          = triggers (trace ?w) @ [trigger_request e url]"
      by (subst handleFinalFailure_kv_fires [OF assms(1) k, of e n])
        (simp add: trace_emit trace_kv_put triggers_append)
    moreover have "triggers (trace ?w) = triggers (trace w)"
      by (simp add: triggers_append)
    ultimately show ?thesis by simp
  qed
  show "KV w' = (KV w)(''flag'' \<mapsto> (''deployed'', now w + 10800))"
    if "run se api w = (Inr Deployed, w')"
    using that by (rule run_deployed_writes_flag)
qed

theorem absent_flag_triggers_once_witness:
  "js_includes ''https://galaxy.test/'' ''galaxy''
   \<and> KV world0 ''flag'' = None
   \<and> KV world_expired ''flag'' = Some (''deployed'', 10800) \<and> 10800 \<le> now world_expired
   \<and> succeeded (deploy (net_always 500))
   \<and> triggers (trace (handleFinalFailure_kv env0 (net_always 500) ''https://galaxy.test/''
         world0)) = [trigger_request env0 ''https://galaxy.test/'']
   \<and> KV (handleFinalFailure_kv env0 (net_always 500) ''https://galaxy.test/'' world0)
       = [''flag'' \<mapsto> (''deployed'', 10800)]
   \<and> trace (handleFinalFailure_kv env0 (net_always 500) ''https://galaxy.test/'' world0)
       = [KvGet ''flag'', Trigger (trigger_request env0 ''https://galaxy.test/''),
          KvPut ''flag'' ''deployed'' 10800]
   \<and> KV (handleFinalFailure_kv env0 (net_always 500) ''https://galaxy.test/'' world_expired)
       = [''flag'' \<mapsto> (''deployed'', 21600)]
   \<and> KV (handleFinalFailure_kv env0 (net_deploy_refused 500) ''https://galaxy.test/'' world0)
       = Map.empty
   \<and> trace (handleFinalFailure_kv env0 (net_deploy_refused 500) ''https://galaxy.test/''
         world0)
       = [KvGet ''flag'', Trigger (trigger_request env0 ''https://galaxy.test/'')]
   \<and> triggers (trace (fetchWithTimeout (handleFinalFailure_kv env0 (net_always 500))
         (net_always 500) ''https://galaxy.test/'' 1 world0))
       = [trigger_request env0 ''https://galaxy.test/'']
   \<and> KV (snd (run senv0 (api_replying 200 200) world0)) = [''flag'' \<mapsto> (''deployed'', 10800)]"
proof -
  let ?url = "''https://galaxy.test/''"
  have a0: "KV world0 ''flag'' = None
       \<or> (\<exists>v expires. KV world0 ''flag'' = Some (v, expires) \<and> expires \<le> now world0)"
    by (simp add: world0_def)
  have ae: "KV world_expired ''flag'' = None
       \<or> (\<exists>v expires. KV world_expired ''flag'' = Some (v, expires)
            \<and> expires \<le> now world_expired)"
    by (simp add: world_expired_def)
  have s: "succeeded (deploy (net_always 500))"
    by (simp add: net_always_def succeeded_def ok_def)
  have ns: "\<not> succeeded (deploy (net_deploy_refused 500))"
    by (simp add: net_deploy_refused_def succeeded_def ok_def)
  have r: "\<forall>k. retryable (probe (net_always 500) ?url k)"
    by (simp add: retryable_always_5xx)
  have d: "run senv0 (api_replying 200 200) world0 =
      (Inr Deployed, snd (run senv0 (api_replying 200 200) world0))"
    by (simp add: run_def senv0_def api_replying_def world0_def Let_def emit_def kv_get_def
        FLAG_KEY_def getFile_def updateFile_def ok_def append_line_feed_def enc_defs dec_defs)
  note t1 = absent_flag_triggers_once [OF galaxy_test_matches a0,
      where e = env0 and n = "net_always 500" and se = senv0 and api = "api_replying 200 200"
        and w' = "snd (run senv0 (api_replying 200 200) world0)"]
  note t2 = absent_flag_triggers_once [OF galaxy_test_matches ae,
      where e = env0 and n = "net_always 500"]
  note t3 = absent_flag_triggers_once [OF galaxy_test_matches a0,
      where e = env0 and n = "net_deploy_refused 500"]
  have c0: "triggers (trace (handleFinalFailure_kv env0 (net_always 500) ?url world0))
      = triggers (trace world0) @ [trigger_request env0 ?url]"
    using t1 by blast
  have c1: "KV (handleFinalFailure_kv env0 (net_always 500) ?url world0)
       = (KV world0)(''flag'' \<mapsto> (''deployed'', now world0 + 10800))"
    using t1 s by blast
  have c1': "trace (handleFinalFailure_kv env0 (net_always 500) ?url world0)
       = trace world0 @ [KvGet ''flag'', Trigger (trigger_request env0 ?url),
          KvPut ''flag'' ''deployed'' 10800]"
    using t1 s by blast
  have c2: "KV (handleFinalFailure_kv env0 (net_always 500) ?url world_expired)
       = (KV world_expired)(''flag'' \<mapsto> (''deployed'', now world_expired + 10800))"
    using t2 s by blast
  have c3: "KV (handleFinalFailure_kv env0 (net_deploy_refused 500) ?url world0) = KV world0"
    using t3 ns by blast
  have c3': "trace (handleFinalFailure_kv env0 (net_deploy_refused 500) ?url world0)
       = trace world0 @ [KvGet ''flag'', Trigger (trigger_request env0 ?url)]"
    using t3 ns by blast
  have c4: "triggers (trace (fetchWithTimeout (handleFinalFailure_kv env0 (net_always 500))
         (net_always 500) ?url 1 world0)) = triggers (trace world0) @ [trigger_request env0 ?url]"
    using t1 r by blast
  have c5: "KV (snd (run senv0 (api_replying 200 200) world0))
      = (KV world0)(''flag'' \<mapsto> (''deployed'', now world0 + 10800))"
    using t1 d by blast
  have k0: "KV world0 = Map.empty" "now world0 = 0" "trace world0 = []"
    by (simp_all add: world0_def)
  have ke: "KV world_expired ''flag'' = Some (''deployed'', 10800)" "10800 \<le> now world_expired"
    "(KV world_expired)(''flag'' \<mapsto> (''deployed'', now world_expired + 10800))
       = [''flag'' \<mapsto> (''deployed'', 21600)]"
    by (simp_all add: world_expired_def)
  show ?thesis
    using galaxy_test_matches s c0 c1 c1' c2 c3 c3' c4 c5 ke unfolding k0 by simp
qed

section \<open>Properties of the concurrency-bounded runner\<close>

lemma runner_inv_start: "0 < limit \<Longrightarrow> runner_inv n limit (start n)"
  by (simp add: runner_inv_def start_def)

lemma none_in_flight:
  "set xs \<subseteq> set ys \<Longrightarrow> \<forall>p\<in>set ys. p \<notin> set xs \<Longrightarrow> xs = []"
  by (cases xs) auto

lemma runner_inv_run_step:
  assumes inv: "runner_inv n limit s" and st: "run_step limit s = Some s'" and "0 < limit"
  shows "runner_inv n limit s'"
proof (cases "phase s")
  case Looping
  show ?thesis
  proof (cases "pending s")
    case Nil
    then have "s' = s\<lparr>phase := AwaitingAll (executing s)\<rparr>"
      using st Looping by (simp add: run_step_def)
    then show ?thesis
      using inv Nil by (simp add: runner_inv_def)
  next
    case (Cons task rest)
    then have s': "s' = s\<lparr>pending := rest,
                       executing := executing s @ [task],
                       in_flight := in_flight s @ [task],
                       phase := (if length (executing s @ [task]) \<ge> limit
                                 then AwaitingRace False else Looping)\<rparr>"
      using st Looping by (simp add: run_step_def)
    have fresh: "task \<notin> set (executing s)" "task \<notin> set rest"
      using inv Cons by (auto simp: runner_inv_def)
    then have "task \<notin> set (in_flight s)"
      using inv by (auto simp: runner_inv_def)
    then show ?thesis
      using inv Cons Looping fresh unfolding s'
      by (auto simp: runner_inv_def)
  qed
next
  case (AwaitingRace woken)
  then have "woken" "s' = s\<lparr>phase := Looping\<rparr>"
    using st by (auto simp: run_step_def split: if_splits)
  then show ?thesis
    using inv AwaitingRace by (simp add: runner_inv_def)
next
  case (AwaitingAll snapshot)
  then have a: "\<forall>p\<in>set snapshot. p \<notin> set (in_flight s)" and s': "s' = s\<lparr>phase := Returned\<rparr>"
    using st by (auto simp: run_step_def list_all_iff split: if_splits)
  have "set (in_flight s) \<subseteq> set snapshot" "pending s = []"
    using inv AwaitingAll by (simp_all add: runner_inv_def)
  then have "in_flight s = []"
    using a none_in_flight by blast
  then show ?thesis
    using inv AwaitingAll \<open>pending s = []\<close> unfolding s' by (simp add: runner_inv_def)
next
  case Returned
  then show ?thesis using st by (simp add: run_step_def)
qed

lemma runner_inv_settle_step:
  assumes inv: "runner_inv n limit s" and st: "settle_step p s = Some s'"
  shows "runner_inv n limit s'"
proof -
  have p: "p \<in> set (in_flight s)"
    and s': "s' = s\<lparr>in_flight := removeAll p (in_flight s), settled := settled s @ [p]\<rparr>"
    using st by (auto simp: settle_step_def split: if_splits)
  have "set (pending s') \<union> set (in_flight s') \<union> set (settled s')
      = set (pending s) \<union> set (in_flight s) \<union> set (settled s)"
    unfolding s' using p by auto
  then have u: "set (pending s') \<union> set (in_flight s') \<union> set (settled s') = {0..<n}"
    using inv by (simp add: runner_inv_def)
  have f: "set (in_flight s') \<subseteq> set (in_flight s)" "distinct (in_flight s')"
    "pending s' = pending s" "executing s' = executing s" "phase s' = phase s"
    using inv unfolding s' by (auto simp: runner_inv_def distinct_removeAll)
  have ph: "(case phase s' of
           Looping \<Rightarrow> length (executing s') < limit
         | AwaitingRace woken \<Rightarrow> woken = (length (executing s') < limit)
         | AwaitingAll snapshot \<Rightarrow> pending s' = [] \<and> set (in_flight s') \<subseteq> set snapshot
         | Returned \<Rightarrow> pending s' = [] \<and> in_flight s' = [])"
    using inv p f(1) unfolding f(3-5) runner_inv_def
    by (cases "phase s") auto
  show ?thesis
    unfolding runner_inv_def
    using u f(1,2) ph inv unfolding f(3,4) runner_inv_def by auto
qed

lemma runner_inv_finally_step:
  assumes inv: "runner_inv n limit s" and st: "finally_step p s = Some s'"
  shows "runner_inv n limit s'"
proof -
  have p: "p \<in> set (executing s)" "p \<notin> set (in_flight s)"
    and s': "s' = s\<lparr>executing := removeAll p (executing s),
                   phase := (case phase s of
                               AwaitingRace woken \<Rightarrow> AwaitingRace True
                             | Looping \<Rightarrow> Looping
                             | AwaitingAll snapshot \<Rightarrow> AwaitingAll snapshot
                             | Returned \<Rightarrow> Returned)\<rparr>"
    using st by (auto simp: finally_step_def split: if_splits)
  have l: "length (removeAll p (executing s)) < length (executing s)"
    using p(1) by (rule length_removeAll_less)
  show ?thesis
    using inv p l unfolding s' runner_inv_def
    by (cases "phase s") (auto simp: distinct_removeAll)
qed

lemma runner_inv_step:
  assumes "runner_inv n limit s" and "step limit a s = Some s'" and "0 < limit"
  shows "runner_inv n limit s'"
proof (cases a)
  case Run
  then show ?thesis using assms runner_inv_run_step by simp
next
  case (Settle p)
  then show ?thesis using assms runner_inv_settle_step by simp
next
  case (Finally p)
  then show ?thesis using assms runner_inv_finally_step by simp
qed

lemma runner_inv_steps:
  assumes "0 < limit"
  shows "runner_inv n limit s \<Longrightarrow> steps limit schedule s = Some s' \<Longrightarrow> runner_inv n limit s'"
proof (induction schedule arbitrary: s)
  case Nil
  then show ?case by simp
next
  case (Cons a schedule)
  then obtain s1 where s1: "step limit a s = Some s1" "steps limit schedule s1 = Some s'"
    by (auto split: option.splits)
  have "runner_inv n limit s1"
    using runner_inv_step [OF Cons.prems(1) s1(1) assms] .
  then show ?case
    using Cons.IH s1(2) by blast
qed

lemma in_flight_bounded:
  assumes "runner_inv n limit s"
  shows "length (in_flight s) \<le> limit"
proof -
  have "length (in_flight s) = card (set (in_flight s))"
    using assms by (simp add: runner_inv_def distinct_card)
  also have "\<dots> \<le> card (set (executing s))"
    using assms by (simp add: runner_inv_def card_mono)
  also have "\<dots> \<le> length (executing s)"
    by (rule card_length)
  also have "\<dots> \<le> limit"
    using assms by (simp add: runner_inv_def)
  finally show ?thesis .
qed

lemma returned_all_settled:
  assumes "runner_inv n limit s" and "phase s = Returned"
  shows "pending s = [] \<and> in_flight s = [] \<and> set (settled s) = {0..<n}"
  using assms by (auto simp: runner_inv_def)

text \<open>
  C7. Whatever the number of tasks and whatever the schedule, in every state the
  runner reaches with \<^verbatim>\<open>limit = CONCURRENCY\<close> at most \<open>CONCURRENCY = 3\<close> promises
  are in flight, and when the runner has returned every task has been started and
  has settled.
\<close>

theorem in_flight_never_exceeds_limit:
  assumes "runWithConcurrency n CONCURRENCY schedule = Some s"
  shows "length (in_flight s) \<le> CONCURRENCY
       \<and> (phase s = Returned \<longrightarrow>
            pending s = [] \<and> in_flight s = [] \<and> set (settled s) = {0..<n})"
proof -
  have "0 < CONCURRENCY" by (simp add: CONCURRENCY_def)
  then have "runner_inv n CONCURRENCY s"
    using assms runner_inv_steps [OF _ runner_inv_start]
    by (simp add: runWithConcurrency_def)
  then show ?thesis
    using in_flight_bounded returned_all_settled by blast
qed

lemma four_tasks: "[0..<4] = [0, 1, 2, 3]"
  by (simp add: upt_rec)

lemmas runner_defs = runWithConcurrency_def start_def run_step_def settle_step_def
  finally_step_def CONCURRENCY_def

theorem in_flight_never_exceeds_limit_witness:
  "runWithConcurrency 4 CONCURRENCY [Run, Run, Run]
     = Some \<lparr>pending = [3], executing = [0, 1, 2], in_flight = [0, 1, 2], settled = [],
             phase = AwaitingRace False\<rparr>
   \<and> runWithConcurrency 4 CONCURRENCY [Run, Run, Run, Run] = None
   \<and> runWithConcurrency 4 CONCURRENCY
     [Run, Run, Run, Settle 1, Finally 1, Run, Run, Settle 0, Settle 2, Finally 2, Run,
      Settle 3, Finally 0, Run, Run]
     = Some \<lparr>pending = [], executing = [3], in_flight = [], settled = [1, 0, 2, 3],
             phase = Returned\<rparr>
   \<and> length (in_flight \<lparr>pending = [], executing = [3], in_flight = [],
        settled = [1, 0, 2, 3], phase = Returned\<rparr>) \<le> CONCURRENCY
   \<and> set (settled \<lparr>pending = [], executing = [3], in_flight = [],
        settled = [1, 0, 2, 3], phase = Returned\<rparr>) = {0..<4}"
proof -
  have a: "runWithConcurrency 4 CONCURRENCY [Run, Run, Run]
     = Some \<lparr>pending = [3], executing = [0, 1, 2], in_flight = [0, 1, 2], settled = [],
             phase = AwaitingRace False\<rparr>"
    by (simp add: runner_defs four_tasks)
  have b: "runWithConcurrency 4 CONCURRENCY [Run, Run, Run, Run] = None"
    by (simp add: runner_defs four_tasks)
  have r: "runWithConcurrency 4 CONCURRENCY
     [Run, Run, Run, Settle 1, Finally 1, Run, Run, Settle 0, Settle 2, Finally 2, Run,
      Settle 3, Finally 0, Run, Run]
     = Some \<lparr>pending = [], executing = [3], in_flight = [], settled = [1, 0, 2, 3],
             phase = Returned\<rparr>"
    by (simp add: runner_defs four_tasks)
  show ?thesis
    using in_flight_never_exceeds_limit [OF r] a b r by simp
qed

section \<open>Base64: decoding what was encoded\<close>

lemma b64_value_char: "i < 64 \<Longrightarrow> b64_value (b64_char i) = Some i"
  by (auto simp: b64_value_def b64_char_def)

lemma b64_char_plain:
  "i < 64 \<Longrightarrow> b64_char i \<noteq> 61 \<and> b64_char i \<noteq> 10 \<and> \<not> ascii_whitespace (b64_char i)"
  by (auto simp: b64_char_def ascii_whitespace_def)

lemma div_mult_add_small: "r < m \<Longrightarrow> (q * m + r) div m = (q::nat)"
  by simp

lemma mod_mult_add_small: "r < m \<Longrightarrow> (q * m + r) mod m = (r::nat)"
  by simp

lemma byte_parts:
  fixes a :: nat
  assumes "a \<le> 255"
  shows "a div 4 < 64" "a div 16 < 16" "a div 64 < 4"
  using assms by (simp_all add: div_less_iff_less_mult)

lemma sextet_bounds:
  fixes a b c :: nat
  assumes "a \<le> 255" "b \<le> 255" "c \<le> 255"
  shows "a div 4 < 64" "(a mod 4) * 16 + b div 16 < 64" "(b mod 16) * 4 + c div 64 < 64"
    "c mod 64 < 64" "(a mod 4) * 16 < 64" "(b mod 16) * 4 < 64"
proof -
  have m: "a mod 4 < 4" "b mod 16 < 16" by simp_all
  show "a div 4 < 64" using byte_parts(1) [OF assms(1)] .
  show "(a mod 4) * 16 + b div 16 < 64" using m(1) byte_parts(2) [OF assms(2)] by linarith
  show "(b mod 16) * 4 + c div 64 < 64" using m(2) byte_parts(3) [OF assms(3)] by linarith
  show "c mod 64 < 64" by simp
  show "(a mod 4) * 16 < 64" using m(1) by linarith
  show "(b mod 16) * 4 < 64" using m(2) by linarith
qed

lemma group3:
  fixes a b c :: nat
  assumes "b \<le> 255" "c \<le> 255"
  shows "(a div 4) * 4 + ((a mod 4) * 16 + b div 16) div 16 = a"
    "(((a mod 4) * 16 + b div 16) mod 16) * 16 + ((b mod 16) * 4 + c div 64) div 4 = b"
    "(((b mod 16) * 4 + c div 64) mod 4) * 64 + c mod 64 = c"
proof -
  note bb = byte_parts(2) [OF assms(1)] and cc = byte_parts(3) [OF assms(2)]
  show "(a div 4) * 4 + ((a mod 4) * 16 + b div 16) div 16 = a"
    by (simp only: div_mult_add_small [OF bb] div_mult_mod_eq)
  show "(((a mod 4) * 16 + b div 16) mod 16) * 16 + ((b mod 16) * 4 + c div 64) div 4 = b"
    by (simp only: mod_mult_add_small [OF bb] div_mult_add_small [OF cc] div_mult_mod_eq)
  show "(((b mod 16) * 4 + c div 64) mod 4) * 64 + c mod 64 = c"
    by (simp only: mod_mult_add_small [OF cc] div_mult_mod_eq)
qed

lemma group2:
  fixes a b :: nat
  assumes "b \<le> 255"
  shows "(((a mod 4) * 16 + b div 16) mod 16) * 16 + ((b mod 16) * 4) div 4 = b"
proof -
  note bb = byte_parts(2) [OF assms(1)]
  show ?thesis
    by (simp only: mod_mult_add_small [OF bb] nonzero_mult_div_cancel_right div_mult_mod_eq)
qed

lemma group1:
  fixes a :: nat
  shows "(a div 4) * 4 + ((a mod 4) * 16) div 16 = a"
  by simp

lemma length_btoa_groups: "length (btoa_groups bs) mod 4 = 0"
  by (induction bs rule: btoa_groups.induct) simp_all

lemma strip_padding_group:
  assumes "length g = 4" and "last g \<noteq> 61" and "length r mod 4 = 0"
  shows "strip_padding (g @ r) = g @ strip_padding r"
proof (cases "r = []")
  case True
  then show ?thesis using assms by (auto simp: strip_padding_def)
next
  case False
  then have "length r \<noteq> 0" by simp
  then have "4 \<le> length r" using assms(3) by presburger
  then have b: "butlast r \<noteq> []" by (cases r) auto
  show ?thesis
    using assms False b
    by (simp add: strip_padding_def butlast_append)
qed

lemma atob_core:
  assumes "list_all (\<lambda>c. c \<le> 255) bs"
  shows "length (strip_padding (btoa_groups bs)) mod 4 \<noteq> 1
       \<and> (\<exists>sx. those (map b64_value (strip_padding (btoa_groups bs))) = Some sx
               \<and> decode_groups sx = bs)"
  using assms
proof (induction bs rule: btoa_groups.induct)
  case (1 a b c rest)
  let ?g = "[b64_char (a div 4), b64_char ((a mod 4) * 16 + b div 16),
      b64_char ((b mod 16) * 4 + c div 64), b64_char (c mod 64)]"
  have abc: "a \<le> 255" "b \<le> 255" "c \<le> 255" and rest: "list_all (\<lambda>c. c \<le> 255) rest"
    using "1.prems" by simp_all
  note sb = sextet_bounds [OF abc]
  have "last ?g \<noteq> 61" using b64_char_plain [OF sb(4)] by simp
  then have sp: "strip_padding (btoa_groups (a # b # c # rest))
      = ?g @ strip_padding (btoa_groups rest)"
    using strip_padding_group [of ?g "btoa_groups rest"] length_btoa_groups by simp
  obtain sx where sx: "those (map b64_value (strip_padding (btoa_groups rest))) = Some sx"
      "decode_groups sx = rest" and len: "length (strip_padding (btoa_groups rest)) mod 4 \<noteq> 1"
    using "1.IH" [OF rest] by blast
  have "those (map b64_value (?g @ strip_padding (btoa_groups rest)))
      = Some ([a div 4, (a mod 4) * 16 + b div 16, (b mod 16) * 4 + c div 64, c mod 64] @ sx)"
    using sx(1) by (simp add: b64_value_char sb)
  moreover have "decode_groups
      ([a div 4, (a mod 4) * 16 + b div 16, (b mod 16) * 4 + c div 64, c mod 64] @ sx)
      = a # b # c # rest"
    using sx(2) group3(1,2) [OF abc(2,3), of a] group3(3) [OF abc(2,3)] by simp
  moreover have "length (?g @ strip_padding (btoa_groups rest)) mod 4 \<noteq> 1"
    using len by simp
  ultimately show ?case unfolding sp by blast
next
  case (2 a b)
  then have ab: "a \<le> 255" "b \<le> 255" by simp_all
  note sb = sextet_bounds [OF ab ab(1)]
  have "b64_char ((b mod 16) * 4) \<noteq> 61" using b64_char_plain [OF sb(6)] by simp
  then have sp: "strip_padding (btoa_groups [a, b])
      = [b64_char (a div 4), b64_char ((a mod 4) * 16 + b div 16), b64_char ((b mod 16) * 4)]"
    by (simp add: strip_padding_def)
  show ?case
    unfolding sp using group2 [OF ab(2), of a] group3(1) [OF ab(2) ab(2), of a]
    by (simp add: b64_value_char sb)
next
  case (3 a)
  then have a: "a \<le> 255" by simp
  note sb = sextet_bounds [OF a a a]
  have "b64_char ((a mod 4) * 16) \<noteq> 61" using b64_char_plain [OF sb(5)] by simp
  then have sp: "strip_padding (btoa_groups [a])
      = [b64_char (a div 4), b64_char ((a mod 4) * 16)]"
    by (simp add: strip_padding_def)
  show ?case
    unfolding sp using group1 [of a] by (simp add: b64_value_char sb)
next
  case 4
  then show ?case by (simp add: strip_padding_def)
qed

lemma btoa_groups_plain:
  assumes "list_all (\<lambda>c. c \<le> 255) bs"
  shows "list_all (\<lambda>c. c \<noteq> 10 \<and> \<not> ascii_whitespace c) (btoa_groups bs)"
  using assms
proof (induction bs rule: btoa_groups.induct)
  case (1 a b c rest)
  then have abc: "a \<le> 255" "b \<le> 255" "c \<le> 255" by simp_all
  note sb = sextet_bounds [OF abc]
  show ?case
    using 1 b64_char_plain [OF sb(1)] b64_char_plain [OF sb(2)] b64_char_plain [OF sb(3)]
      b64_char_plain [OF sb(4)] by simp
next
  case (2 a b)
  then have ab: "a \<le> 255" "b \<le> 255" by simp_all
  note sb = sextet_bounds [OF ab ab(1)]
  show ?case
    using b64_char_plain [OF sb(1)] b64_char_plain [OF sb(2)] b64_char_plain [OF sb(6)]
    by (simp add: ascii_whitespace_def)
next
  case (3 a)
  then have a: "a \<le> 255" by simp
  note sb = sextet_bounds [OF a a a]
  show ?case
    using b64_char_plain [OF sb(1)] b64_char_plain [OF sb(5)]
    by (simp add: ascii_whitespace_def)
next
  case 4
  then show ?case by simp
qed

lemma filter_all: "list_all P xs \<Longrightarrow> filter P xs = xs"
  by (induction xs) simp_all

lemma atob_btoa_groups:
  assumes "list_all (\<lambda>c. c \<le> 255) bs"
  shows "atob (filter (\<lambda>c. c \<noteq> 10) (btoa_groups bs)) = Some bs"
proof -
  note p = btoa_groups_plain [OF assms]
  have f1: "filter (\<lambda>c. c \<noteq> 10) (btoa_groups bs) = btoa_groups bs"
    using p by (intro filter_all) (simp add: list_all_iff)
  have f2: "filter (\<lambda>c. \<not> ascii_whitespace c) (btoa_groups bs) = btoa_groups bs"
    using p by (intro filter_all) (simp add: list_all_iff)
  obtain sx where "length (strip_padding (btoa_groups bs)) mod 4 \<noteq> 1"
      "those (map b64_value (strip_padding (btoa_groups bs))) = Some sx"
      "decode_groups sx = bs"
    using atob_core [OF assms] by blast
  then show ?thesis
    by (simp add: atob_def f1 f2)
qed

section \<open>UTF-8 and UTF-16: decoding what was encoded\<close>

lemma lead_mod:
  fixes x :: nat
  shows "x < 32 \<Longrightarrow> (192 + x) mod 32 = x"
    and "x < 16 \<Longrightarrow> (224 + x) mod 16 = x"
    and "x < 8 \<Longrightarrow> (240 + x) mod 8 = x"
    and "x < 64 \<Longrightarrow> (128 + x) mod 64 = x"
  using mod_mult_add_small [of x 32 6] mod_mult_add_small [of x 16 14]
    mod_mult_add_small [of x 8 30] mod_mult_add_small [of x 64 2]
  by simp_all


lemma utf8_decode_1:
  "b < 128 \<Longrightarrow> utf8_decode 0 0 128 191 (b # rest) = b # utf8_decode 0 0 128 191 rest"
  by (simp add: utf8_decode.simps)

lemma utf8_decode_continue:
  assumes "y < 64" and "lower \<le> 128 + y" and "128 + y \<le> upper"
  shows "utf8_decode cp (Suc (Suc k)) lower upper ((128 + y) # rest)
         = utf8_decode (cp * 64 + y) (Suc k) 128 191 rest"
  using assms by (simp add: utf8_decode.simps lead_mod)

lemma utf8_decode_last:
  assumes "y < 64" and "lower \<le> 128 + y" and "128 + y \<le> upper"
  shows "utf8_decode cp (Suc 0) lower upper ((128 + y) # rest)
         = (cp * 64 + y) # utf8_decode 0 0 128 191 rest"
  using assms by (simp add: utf8_decode.simps lead_mod)

lemma utf8_decode_lead2:
  assumes "2 \<le> x" "x < 32"
  shows "utf8_decode 0 0 128 191 ((192 + x) # rest) = utf8_decode x (Suc 0) 128 191 rest"
  using assms by (simp add: utf8_decode.simps lead_mod)

lemma utf8_decode_lead3:
  assumes "x < 16"
  shows "utf8_decode 0 0 128 191 ((224 + x) # rest)
      = utf8_decode x (Suc (Suc 0)) (if x = 0 then 160 else 128) (if x = 13 then 159 else 191)
          rest"
  using assms by (simp add: utf8_decode.simps lead_mod numeral_2_eq_2)

lemma utf8_decode_lead4:
  assumes "x < 5"
  shows "utf8_decode 0 0 128 191 ((240 + x) # rest)
      = utf8_decode x (Suc (Suc (Suc 0))) (if x = 0 then 144 else 128)
          (if x = 4 then 143 else 191) rest"
  using assms by (simp add: utf8_decode.simps lead_mod numeral_3_eq_3)

lemma utf8_decode_2:
  assumes "2 \<le> x" "x < 32" "z < 64"
  shows "utf8_decode 0 0 128 191 ((192 + x) # (128 + z) # rest)
         = (x * 64 + z) # utf8_decode 0 0 128 191 rest"
  using assms by (simp add: utf8_decode_lead2 utf8_decode_last)

lemma utf8_decode_3:
  assumes "x < 16" "y < 64" "z < 64" and "x = 0 \<longrightarrow> 32 \<le> y" and "x = 13 \<longrightarrow> y < 32"
  shows "utf8_decode 0 0 128 191 ((224 + x) # (128 + y) # (128 + z) # rest)
         = ((x * 64 + y) * 64 + z) # utf8_decode 0 0 128 191 rest"
proof -
  have "utf8_decode 0 0 128 191 ((224 + x) # (128 + y) # (128 + z) # rest)
      = utf8_decode x (Suc (Suc 0)) (if x = 0 then 160 else 128) (if x = 13 then 159 else 191)
          ((128 + y) # (128 + z) # rest)"
    using assms(1) by (rule utf8_decode_lead3)
  also have "\<dots> = utf8_decode (x * 64 + y) (Suc 0) 128 191 ((128 + z) # rest)"
    using assms by (intro utf8_decode_continue) auto
  also have "\<dots> = ((x * 64 + y) * 64 + z) # utf8_decode 0 0 128 191 rest"
    using assms by (intro utf8_decode_last) auto
  finally show ?thesis .
qed

lemma utf8_decode_4:
  assumes "x < 5" "y < 64" "z < 64" "t < 64" and "x = 0 \<longrightarrow> 16 \<le> y" and "x = 4 \<longrightarrow> y < 16"
  shows "utf8_decode 0 0 128 191 ((240 + x) # (128 + y) # (128 + z) # (128 + t) # rest)
         = (((x * 64 + y) * 64 + z) * 64 + t) # utf8_decode 0 0 128 191 rest"
proof -
  have "utf8_decode 0 0 128 191 ((240 + x) # (128 + y) # (128 + z) # (128 + t) # rest)
      = utf8_decode x (Suc (Suc (Suc 0))) (if x = 0 then 144 else 128)
          (if x = 4 then 143 else 191) ((128 + y) # (128 + z) # (128 + t) # rest)"
    using assms(1) by (rule utf8_decode_lead4)
  also have "\<dots> = utf8_decode (x * 64 + y) (Suc (Suc 0)) 128 191
      ((128 + z) # (128 + t) # rest)"
    using assms by (intro utf8_decode_continue) auto
  also have "\<dots> = utf8_decode ((x * 64 + y) * 64 + z) (Suc 0) 128 191 ((128 + t) # rest)"
    using assms by (intro utf8_decode_continue) auto
  also have "\<dots> = (((x * 64 + y) * 64 + z) * 64 + t) # utf8_decode 0 0 128 191 rest"
    using assms by (intro utf8_decode_last) auto
  finally show ?thesis .
qed

text \<open>The digits of a code point in base 64.\<close>

lemma digits3:
  fixes cp :: nat
  shows "cp = ((cp div 4096) * 64 + (cp div 64) mod 64) * 64 + cp mod 64"
proof -
  have "cp div 4096 = (cp div 64) div 64"
    by (simp add: div_mult2_eq [symmetric])
  then have "(cp div 4096) * 64 + (cp div 64) mod 64 = cp div 64"
    by simp
  then show ?thesis by simp
qed

lemma digits4:
  fixes cp :: nat
  shows "cp = (((cp div 262144) * 64 + (cp div 4096) mod 64) * 64 + (cp div 64) mod 64) * 64
              + cp mod 64"
proof -
  have "cp div 262144 = (cp div 4096) div 64"
    by (simp add: div_mult2_eq [symmetric])
  then have "(cp div 262144) * 64 + (cp div 4096) mod 64 = cp div 4096"
    by simp
  then show ?thesis using digits3 [of cp] by simp
qed

lemma mod_window:
  fixes q :: nat
  assumes "k * m + lo \<le> q" and "q < k * m + hi" and "hi \<le> m"
  shows "lo \<le> q mod m \<and> q mod m < hi"
proof -
  define d where "d = q - k * m"
  have q: "q = k * m + d" and d: "lo \<le> d" "d < hi"
    using assms by (simp_all add: d_def)
  then have "d < m" using assms(3) by simp
  then have "q mod m = d" unfolding q by simp
  then show ?thesis using d by simp
qed

lemma utf8_roundtrip_2:
  assumes "128 \<le> cp" "cp < 2048"
  shows "utf8_decode 0 0 128 191 ([192 + cp div 64, 128 + cp mod 64] @ rest)
         = cp # utf8_decode 0 0 128 191 rest"
proof -
  have "2 \<le> cp div 64" using assms(1) by (simp add: less_eq_div_iff_mult_less_eq)
  moreover have "cp div 64 < 32" using assms(2) by (simp add: div_less_iff_less_mult)
  ultimately show ?thesis
    using utf8_decode_2 [of "cp div 64" "cp mod 64" rest] by simp
qed

lemma utf8_roundtrip_3:
  assumes "2048 \<le> cp" "cp < 65536" "\<not> is_surrogate cp"
  shows "utf8_decode 0 0 128 191
           ([224 + cp div 4096, 128 + (cp div 64) mod 64, 128 + cp mod 64] @ rest)
         = cp # utf8_decode 0 0 128 191 rest"
proof -
  let ?x = "cp div 4096" and ?q = "cp div 64"
  have x: "?x < 16" using assms(2) by (simp add: div_less_iff_less_mult)
  have lo: "32 \<le> ?q mod 64" if "?x = 0"
  proof -
    have "cp < 4096" using that by (simp add: div_eq_0_iff)
    then have "?q < 64" by (simp add: div_less_iff_less_mult)
    moreover have "32 \<le> ?q" using assms(1) by (simp add: less_eq_div_iff_mult_less_eq)
    ultimately show ?thesis by simp
  qed
  have hi: "?q mod 64 < 32" if "?x = 13"
  proof -
    have "13 * 4096 \<le> cp" using that less_eq_div_iff_mult_less_eq [of 4096 13 cp] by simp
    moreover have "cp < 14 * 4096"
      using that div_less_iff_less_mult [of 4096 cp 14] by simp
    ultimately have "cp < 55296" using assms(3) by (simp add: is_surrogate_def)
    then have "?q < 13 * 64 + 32" by (simp add: div_less_iff_less_mult)
    moreover have "13 * 64 + 0 \<le> ?q"
      using \<open>13 * 4096 \<le> cp\<close> by (simp add: less_eq_div_iff_mult_less_eq)
    ultimately show ?thesis using mod_window [of 13 64 0 ?q 32] by simp
  qed
  show ?thesis
    using utf8_decode_3 [of ?x "?q mod 64" "cp mod 64" rest] x lo hi digits3 [of cp]
    by simp
qed

lemma utf8_roundtrip_4:
  assumes "65536 \<le> cp" "cp < 1114112"
  shows "utf8_decode 0 0 128 191
           ([240 + cp div 262144, 128 + (cp div 4096) mod 64, 128 + (cp div 64) mod 64,
             128 + cp mod 64] @ rest)
         = cp # utf8_decode 0 0 128 191 rest"
proof -
  let ?x = "cp div 262144" and ?q = "cp div 4096"
  have x: "?x < 5" using assms(2) by (simp add: div_less_iff_less_mult)
  have lo: "16 \<le> ?q mod 64" if "?x = 0"
  proof -
    have "cp < 262144" using that by (simp add: div_eq_0_iff)
    then have "?q < 64" by (simp add: div_less_iff_less_mult)
    moreover have "16 \<le> ?q" using assms(1) by (simp add: less_eq_div_iff_mult_less_eq)
    ultimately show ?thesis by simp
  qed
  have hi: "?q mod 64 < 16" if "?x = 4"
  proof -
    have "4 * 262144 \<le> cp" using that less_eq_div_iff_mult_less_eq [of 262144 4 cp] by simp
    then have "4 * 64 + 0 \<le> ?q" by (simp add: less_eq_div_iff_mult_less_eq)
    moreover have "?q < 4 * 64 + 16" using assms(2) by (simp add: div_less_iff_less_mult)
    ultimately show ?thesis using mod_window [of 4 64 0 ?q 16] by simp
  qed
  show ?thesis
    using utf8_decode_4 [of ?x "?q mod 64" "(cp div 64) mod 64" "cp mod 64" rest] x lo hi
      digits4 [of cp]
    by simp
qed

lemma utf8_decode_bytes:
  assumes "scalar_value cp"
  shows "utf8_decode 0 0 128 191 (utf8_bytes cp @ rest) = cp # utf8_decode 0 0 128 191 rest"
proof -
  consider "cp < 128" | "128 \<le> cp" "cp < 2048" | "2048 \<le> cp" "cp < 65536"
    | "65536 \<le> cp" "cp < 1114112"
    using assms by (auto simp: scalar_value_def) linarith
  then show ?thesis
  proof cases
    case 1
    then show ?thesis by (simp add: utf8_bytes_def utf8_decode_1)
  next
    case 2
    then show ?thesis using utf8_roundtrip_2 [OF 2] by (simp add: utf8_bytes_def)
  next
    case 3
    then have "\<not> is_surrogate cp" using assms by (simp add: scalar_value_def)
    then show ?thesis using utf8_roundtrip_3 [OF 3] 3 by (simp add: utf8_bytes_def)
  next
    case 4
    then show ?thesis using utf8_roundtrip_4 [OF 4] by (simp add: utf8_bytes_def)
  qed
qed

lemma utf8_decode_encode:
  assumes "list_all scalar_value cps"
  shows "utf8_decode 0 0 128 191 (concat (map utf8_bytes cps)) = cps"
  using assms
proof (induction cps)
  case Nil
  then show ?case by (simp add: utf8_decode.simps)
next
  case (Cons cp cps)
  then show ?case by (simp add: utf8_decode_bytes)
qed

lemma utf8_bytes_are_bytes:
  assumes "scalar_value cp"
  shows "list_all (\<lambda>b. b \<le> 255) (utf8_bytes cp)"
proof -
  have m: "cp mod 64 < 64" "(cp div 64) mod 64 < 64" "(cp div 4096) mod 64 < 64" by simp_all
  have "cp < 2048 \<Longrightarrow> cp div 64 < 32" by (simp add: div_less_iff_less_mult)
  moreover have "cp < 65536 \<Longrightarrow> cp div 4096 < 16" by (simp add: div_less_iff_less_mult)
  moreover have "cp div 262144 < 5"
    using assms by (simp add: scalar_value_def div_less_iff_less_mult)
  ultimately show ?thesis
    using m by (auto simp: utf8_bytes_def)
qed

lemma utf8_bytes_bom: "utf8_bytes 65279 = [239, 187, 191]"
  by (simp add: utf8_bytes_def)

lemma utf8_bytes_not_bom:
  assumes "scalar_value cp" and "cp \<noteq> 65279"
  shows "take 3 (utf8_bytes cp @ rest) \<noteq> [239, 187, 191]"
proof -
  consider "cp < 128" | "128 \<le> cp" "cp < 2048" | "2048 \<le> cp" "cp < 65536"
    | "65536 \<le> cp"
    by linarith
  then show ?thesis
  proof cases
    case 1
    then show ?thesis by (cases rest) (auto simp: utf8_bytes_def)
  next
    case 2
    then have "cp div 64 < 32" by (simp add: div_less_iff_less_mult)
    then show ?thesis using 2 by (cases rest) (auto simp: utf8_bytes_def)
  next
    case 3
    have "\<not> (cp div 4096 = 15 \<and> (cp div 64) mod 64 = 59 \<and> cp mod 64 = 63)"
    proof
      assume a: "cp div 4096 = 15 \<and> (cp div 64) mod 64 = 59 \<and> cp mod 64 = 63"
      have "cp = ((cp div 4096) * 64 + (cp div 64) mod 64) * 64 + cp mod 64"
        by (rule digits3)
      then have "cp = 65279" unfolding a [THEN conjunct1] a [THEN conjunct2, THEN conjunct1]
          a [THEN conjunct2, THEN conjunct2] by simp
      then show False using assms(2) by simp
    qed
    then show ?thesis using 3 by (auto simp: utf8_bytes_def)
  next
    case 4
    then show ?thesis by (auto simp: utf8_bytes_def)
  qed
qed

lemma surrogate_kinds:
  "is_high_surrogate c \<Longrightarrow> is_surrogate c"
  "is_low_surrogate c \<Longrightarrow> is_surrogate c"
  "is_surrogate c \<Longrightarrow> \<not> is_high_surrogate c \<Longrightarrow> is_low_surrogate c"
  by (auto simp: is_high_surrogate_def is_low_surrogate_def is_surrogate_def)

lemma scalar_values_plain:
  "\<not> is_surrogate c \<Longrightarrow> scalar_values (c # cs) = c # scalar_values cs"
  using surrogate_kinds(1) by (cases cs) auto

lemma well_formed_plain:
  "\<not> is_surrogate c \<Longrightarrow> well_formed (c # cs) = (c < 65536 \<and> well_formed cs)"
  using surrogate_kinds(1) by (cases cs) auto

lemma well_formed_cases:
  assumes "well_formed (c # cs)"
  obtains (plain) "\<not> is_surrogate c" "c < 65536" "well_formed cs"
    | (pair) d ds where "is_high_surrogate c" "cs = d # ds" "is_low_surrogate d"
        "well_formed ds"
proof (cases cs)
  case Nil
  then show ?thesis using assms plain by simp
next
  case (Cons d ds)
  then show ?thesis using assms plain pair by (cases "is_high_surrogate c") auto
qed

lemma pair_value:
  assumes "is_high_surrogate c" "is_low_surrogate d"
  shows "scalar_value (65536 + (c - 55296) * 1024 + (d - 56320))"
    and "utf16_units (65536 + (c - 55296) * 1024 + (d - 56320)) = [c, d]"
    and "65536 + (c - 55296) * 1024 + (d - 56320) \<noteq> 65279"
proof -
  define h where "h = c - 55296"
  define l where "l = d - 56320"
  have h: "h < 1024" "c = 55296 + h" and l: "l < 1024" "d = 56320 + l"
    using assms by (auto simp: h_def l_def is_high_surrogate_def is_low_surrogate_def)
  show "scalar_value (65536 + (c - 55296) * 1024 + (d - 56320))"
    using h(1) l(1) unfolding h_def [symmetric] l_def [symmetric]
    by (simp add: scalar_value_def is_surrogate_def)
  have "(h * 1024 + l) div 1024 = h" "(h * 1024 + l) mod 1024 = l"
    using l(1) by simp_all
  then show "utf16_units (65536 + (c - 55296) * 1024 + (d - 56320)) = [c, d]"
    unfolding h_def [symmetric] l_def [symmetric] using h(2) l(2)
    by (simp add: utf16_units_def)
  show "65536 + (c - 55296) * 1024 + (d - 56320) \<noteq> 65279"
    by simp
qed

lemma scalar_values_well_formed:
  "well_formed s \<Longrightarrow> list_all scalar_value (scalar_values s)"
proof (induction s rule: well_formed.induct)
  case 1
  then show ?case by simp
next
  case (2 c)
  then show ?case by (simp add: scalar_value_def)
next
  case (3 c d cs)
  show ?case
  proof (cases "is_high_surrogate c")
    case True
    then show ?thesis using 3 pair_value(1) by simp
  next
    case False
    then show ?thesis using 3 by (simp add: scalar_value_def)
  qed
qed

lemma utf16_of_scalar_values:
  "well_formed s \<Longrightarrow> concat (map utf16_units (scalar_values s)) = s"
proof (induction s rule: well_formed.induct)
  case 1
  then show ?case by simp
next
  case (2 c)
  then show ?case by (simp add: utf16_units_def)
next
  case (3 c d cs)
  show ?case
  proof (cases "is_high_surrogate c")
    case True
    then show ?thesis using 3 pair_value(2) by simp
  next
    case False
    then show ?thesis using 3 by (simp add: utf16_units_def)
  qed
qed

section \<open>The round trip of the two helpers\<close>

lemma encode_bytes:
  assumes "well_formed s"
  shows "list_all (\<lambda>b. b \<le> 255) (TextEncoder_encode s)"
proof -
  have "list_all scalar_value cps \<Longrightarrow> list_all (\<lambda>b. b \<le> 255) (concat (map utf8_bytes cps))"
    for cps
    by (induction cps) (simp_all add: utf8_bytes_are_bytes)
  then show ?thesis
    using scalar_values_well_formed [OF assms] by (simp add: TextEncoder_encode_def)
qed

lemma map_small: "list_all (\<lambda>b. b \<le> 255) bs \<Longrightarrow> map (\<lambda>c. c mod m) bs = bs" if "255 < m"
  for m :: nat
  using that by (induction bs) simp_all

lemma base64EncodeUtf8_well_formed:
  assumes "well_formed s"
  shows "base64EncodeUtf8 s = Some (btoa_groups (TextEncoder_encode s))"
proof -
  note b = encode_bytes [OF assms]
  have "map String_fromCharCode (TextEncoder_encode s) = TextEncoder_encode s"
    using map_small [of 65536, OF _ b] by (simp add: String_fromCharCode_def [abs_def])
  then show ?thesis using b by (simp add: base64EncodeUtf8_def btoa_def)
qed

lemma base64DecodeUtf8_btoa_groups:
  assumes "list_all (\<lambda>b. b \<le> 255) bs"
  shows "base64DecodeUtf8 (btoa_groups bs) = Some (TextDecoder_decode bs)"
  using atob_btoa_groups [OF assms] map_small [of 256, OF _ assms]
  by (simp add: base64DecodeUtf8_def)

lemma decode_without_bom:
  assumes "well_formed s" and "s = [] \<or> hd s \<noteq> 65279"
  shows "TextDecoder_decode (TextEncoder_encode s) = s"
proof -
  have "strip_bom (TextEncoder_encode s) = TextEncoder_encode s"
  proof (cases s)
    case Nil
    then show ?thesis by (simp add: TextEncoder_encode_def strip_bom_def)
  next
    case (Cons c cs)
    then have c: "c \<noteq> 65279" using assms(2) by simp
    from assms(1) [unfolded Cons] show ?thesis
    proof (cases rule: well_formed_cases)
      case plain
      then have "take 3 (utf8_bytes c @ concat (map utf8_bytes (scalar_values cs)))
          \<noteq> [239, 187, 191]"
        using c by (intro utf8_bytes_not_bom) (simp_all add: scalar_value_def)
      then show ?thesis
        using plain Cons by (simp add: TextEncoder_encode_def strip_bom_def scalar_values_plain)
    next
      case (pair d ds)
      then have "take 3 (utf8_bytes (65536 + (c - 55296) * 1024 + (d - 56320))
            @ concat (map utf8_bytes (scalar_values ds))) \<noteq> [239, 187, 191]"
        by (intro utf8_bytes_not_bom pair_value)
      then show ?thesis
        using pair Cons by (simp add: TextEncoder_encode_def strip_bom_def)
    qed
  qed
  then show ?thesis
    using utf8_decode_encode [OF scalar_values_well_formed [OF assms(1)]]
      utf16_of_scalar_values [OF assms(1)]
    by (simp add: TextDecoder_decode_def TextEncoder_encode_def)
qed

lemma decode_with_bom:
  assumes "well_formed (65279 # cs)"
  shows "TextDecoder_decode (TextEncoder_encode (65279 # cs)) = cs"
proof -
  have ns: "\<not> is_surrogate 65279" by (simp add: is_surrogate_def)
  then have wf: "well_formed cs" using assms by (simp add: well_formed_plain)
  have "TextEncoder_encode (65279 # cs) = [239, 187, 191] @ TextEncoder_encode cs"
    by (simp add: TextEncoder_encode_def scalar_values_plain [OF ns] utf8_bytes_bom)
  then have "strip_bom (TextEncoder_encode (65279 # cs)) = TextEncoder_encode cs"
    by (simp add: strip_bom_def)
  then show ?thesis
    using utf8_decode_encode [OF scalar_values_well_formed [OF wf]]
      utf16_of_scalar_values [OF wf]
    by (simp add: TextDecoder_decode_def TextEncoder_encode_def)
qed

text \<open>
  C10, as the code has it. For every well-formed string \<open>s\<close>, \<^verbatim>\<open>base64EncodeUtf8\<close>
  returns, and \<^verbatim>\<open>base64DecodeUtf8\<close> of its result returns \<open>s\<close> when \<open>s\<close> does
  not start with U+FEFF, and \<open>s\<close> without its first code unit when it does: the
  decoder drops one leading byte order mark.
\<close>

theorem base64_utf8_roundtrip:
  assumes "well_formed s"
  shows "Option.bind (base64EncodeUtf8 s) base64DecodeUtf8
         = Some (if s \<noteq> [] \<and> hd s = 0xFEFF then tl s else s)"
proof -
  have "Option.bind (base64EncodeUtf8 s) base64DecodeUtf8
      = Some (TextDecoder_decode (TextEncoder_encode s))"
    using base64EncodeUtf8_well_formed [OF assms]
      base64DecodeUtf8_btoa_groups [OF encode_bytes [OF assms]] by simp
  moreover have "TextDecoder_decode (TextEncoder_encode s)
      = (if s \<noteq> [] \<and> hd s = 65279 then tl s else s)"
  proof (cases "s \<noteq> [] \<and> hd s = 65279")
    case True
    then obtain cs where "s = 65279 # cs" by (cases s) auto
    then show ?thesis using decode_with_bom assms by simp
  next
    case False
    then show ?thesis using decode_without_bom [OF assms] by auto
  qed
  ultimately show ?thesis by simp
qed

theorem base64_utf8_roundtrip_witness:
  "well_formed [0x68, 0xE9, 0x4E2D, 0xD83D, 0xDE00]
   \<and> Option.bind (base64EncodeUtf8 [0x68, 0xE9, 0x4E2D, 0xD83D, 0xDE00]) base64DecodeUtf8
       = Some [0x68, 0xE9, 0x4E2D, 0xD83D, 0xDE00]"
proof -
  have w: "well_formed [104, 233, 20013, 55357, 56832]"
    by (simp add: is_surrogate_def is_high_surrogate_def is_low_surrogate_def)
  show ?thesis
    using w base64_utf8_roundtrip [OF w] by simp
qed

text \<open>
  The claim C10 has the round trip for every well-formed string. The string of the
  two code units U+FEFF and \<^verbatim>\<open>h\<close> is well formed, and it comes back as \<^verbatim>\<open>h\<close> alone.
\<close>

theorem leading_bom_counterexample:
  "well_formed [0xFEFF, 0x68]
   \<and> Option.bind (base64EncodeUtf8 [0xFEFF, 0x68]) base64DecodeUtf8 = Some [0x68]
   \<and> Option.bind (base64EncodeUtf8 [0xFEFF, 0x68]) base64DecodeUtf8 \<noteq> Some [0xFEFF, 0x68]"
proof -
  have w: "well_formed [65279, 104]"
    by (simp add: is_surrogate_def is_high_surrogate_def)
  have e: "base64EncodeUtf8 [65279, 104] = Some [55, 55, 117, 47, 97, 65, 61, 61]"
    by (simp add: enc_defs)
  have d: "base64DecodeUtf8 [55, 55, 117, 47, 97, 65, 61, 61] = Some [104]"
    by (simp add: dec_defs)
  show ?thesis
    using w by (simp add: e d)
qed

end
